theory Spec2Isabelle
  imports Complex_Main "HOL-Library.Multiset" "HOL-Library.Product_Lexorder"
begin

section \<open>Data model\<close>

text \<open>
  The notebook \<^verbatim>\<open>5-TidyData.ipynb\<close> is a pipeline of pandas calls over one table of
  basketball games. A data frame is modelled as the list of its rows, in row order; a row
  is a record of its cells, index levels first. A cell that pandas shows as \<^verbatim>\<open>NaN\<close> or
  \<^verbatim>\<open>NaT\<close> is \<open>None\<close>. The columns of a frame are fixed by the code, apart from the two
  rest columns, which the pivot makes from the data: their labels are modelled next to
  the rows, and the cells of a column that is not there read as missing.

  A parsed date has no time of day, so it is an \<open>int\<close>: the number of the calendar day,
  counted from a fixed epoch. The difference of two dates is then the \<^verbatim>\<open>.dt.days\<close> of the
  pandas \<^verbatim>\<open>Timedelta\<close> between them.
\<close>

type_synonym date = int

text \<open>
  The exceptions that end a cell of the notebook: \<^verbatim>\<open>ValueError\<close> of \<^verbatim>\<open>pd.to_datetime\<close> on a
  string that is no date, \<^verbatim>\<open>KeyError\<close> of \<^verbatim>\<open>df[...]\<close> on a column label the frame does
  not have, and the error of the formula library (\<^verbatim>\<open>PatsyError\<close> of patsy) on a model
  formula that names such a column.
\<close>

datatype error = ValueError | KeyError string | FormulaError

text \<open>
  A row of \<^verbatim>\<open>pd.read_csv("data/games.csv")\<close>. The five columns the notebook keeps are
  fields of their own (team names and the date are text, points are numbers); the cells of
  all remaining columns (start time, box score link, overtime, notes) are \<open>other_cells\<close>:
  only whether they are null matters, for \<^verbatim>\<open>dropna\<close>.
\<close>

record raw_row =
  Date :: "string option"
  Visitor_Neutral :: "string option"
  PTS :: "int option"
  Home_Neutral :: "string option"
  PTS_1 :: "int option"
  other_cells :: "string option list"

text \<open>The index \<^verbatim>\<open>(game_id, date)\<close> that every table of the notebook carries.\<close>

record index =
  game_id :: nat
  date :: "date option"

text \<open>
  The \<^verbatim>\<open>variable\<close> column of a melted table holds the name of the column a team
  came from: \<^verbatim>\<open>'away_team'\<close> or \<^verbatim>\<open>'home_team'\<close>.
\<close>

datatype variable = Away_team | Home_team

text \<open>
  Modelled from the spec: a row of the second melted table, which step 1.1 of the notebook
  asks for and names \<^verbatim>\<open>games\<close> again; the code that builds it is not in the notebook. Its
  columns are \<^verbatim>\<open>game_id, date, home_win, home_or_away, team\<close> as in the notebook's goal
  table. They share names with columns of the tables below, and are written
  \<open>outcome_row.team\<close> and \<open>outcome_row.home_win\<close> where the plain name means the later
  table.
\<close>

record outcome_row = index +
  home_win :: bool
  home_or_away :: variable
  team :: "string option"

text \<open>
  Modelled from the spec: a row of that table once step 1.2 has assigned the column
  \<^verbatim>\<open>win\<close>.
\<close>

record win_row = outcome_row +
  win :: bool

text \<open>A row of \<^verbatim>\<open>games\<close>: one game, two teams.\<close>

record game = index +
  away_team :: "string option"
  away_points :: "int option"
  home_team :: "string option"
  home_points :: "int option"

text \<open>A row of \<^verbatim>\<open>tidy\<close>: one (game, team) observation.\<close>

record long_row = index +
  variable :: variable
  team :: "string option"

text \<open>A row of \<^verbatim>\<open>tidy\<close> after \<^verbatim>\<open>tidy['rest'] = ...\<close>.\<close>

record rest_row = long_row +
  rest :: "int option"

text \<open>
  A row of \<^verbatim>\<open>by_game\<close>. Its cells are means, hence rationals. The columns are
  written \<open>by_game_row.away_rest\<close> and \<open>by_game_row.home_rest\<close>: the plain names
  are the columns of \<^verbatim>\<open>df\<close>.
\<close>

record by_game_row = index +
  away_rest :: "rat option"
  home_rest :: "rat option"

text \<open>A row of \<^verbatim>\<open>df\<close>: the columns of \<^verbatim>\<open>games\<close> and the two rest columns.\<close>

record df_row = game +
  away_rest :: "rat option"
  home_rest :: "rat option"

text \<open>A row of \<^verbatim>\<open>df\<close> after \<^verbatim>\<open>df['home_win'] = ...\<close>.\<close>

record df_win_row = df_row +
  home_win :: bool

text \<open>
  Modelled from the spec: a row of \<^verbatim>\<open>wins\<close>, the table step 1.3 asks for, with the
  columns \<^verbatim>\<open>n_wins, n_games, win_pct\<close> of the notebook's goal table.
\<close>

record wins_row =
  n_wins :: nat
  n_games :: nat
  win_pct :: rat

text \<open>
  Modelled from the spec: a row of \<^verbatim>\<open>df\<close> after step 3 has assigned the two strengths
  and the two differences.
\<close>

record model_row = df_win_row +
  away_strength :: "rat option"
  home_strength :: "rat option"
  point_diff :: "int option"
  rest_diff :: "rat option"

section \<open>The loader\<close>

text \<open>
  \<^verbatim>\<open>
  games = (
      pd.read_csv("data/games.csv")
        .rename(columns=column_names)
        .dropna(thresh=4)
        [['date', 'away_team', 'away_points', 'home_team', 'home_points']]
        .assign(date=lambda x: pd.to_datetime(x['date'], format='%a, %b %d, %Y'))
        .set_index('date', append=True)
        .rename_axis(["game_id", "date"])
        .sort_index()
  )
  \<close>
  \<^verbatim>\<open>read_csv\<close> labels the rows \<open>0, 1, 2, \<dots>\<close>; that label survives \<^verbatim>\<open>dropna\<close> and becomes
  the index level \<^verbatim>\<open>game_id\<close>.
\<close>

definition count_non_null :: "raw_row \<Rightarrow> nat" where
  "count_non_null r =
     (if Date r = None then 0 else 1) + (if Visitor_Neutral r = None then 0 else 1) +
     (if PTS r = None then 0 else 1) + (if Home_Neutral r = None then 0 else 1) +
     (if PTS_1 r = None then 0 else 1) + length (filter (\<lambda>c. c \<noteq> None) (other_cells r))"

text \<open>\<^verbatim>\<open>dropna(thresh=n)\<close> keeps the rows with at least \<open>n\<close> non-null cells.\<close>

definition dropna_thresh :: "nat \<Rightarrow> (nat \<times> raw_row) list \<Rightarrow> (nat \<times> raw_row) list" where
  "dropna_thresh n rows = filter (\<lambda>(i, r). n \<le> count_non_null r) rows"

text \<open>
  \<^verbatim>\<open>pd.to_datetime(..., format='%a, %b %d, %Y')\<close> is library code: the parser of one
  date string is the parameter \<open>strptime\<close>, which gives the date the string stands for, or
  \<open>None\<close> if the string does not match the format. A null cell becomes \<^verbatim>\<open>NaT\<close>; a string
  that does not parse raises \<^verbatim>\<open>ValueError\<close>, and then the loader returns no table.
\<close>

definition to_datetime :: "(string \<Rightarrow> date option) \<Rightarrow> string option \<Rightarrow> error + date option" where
  "to_datetime strptime c =
     (case c of
        None \<Rightarrow> Inr None
      | Some s \<Rightarrow> (case strptime s of None \<Rightarrow> Inl ValueError | Some d \<Rightarrow> Inr (Some d)))"

text \<open>
  Column selection, the renaming of \<^verbatim>\<open>column_names\<close>, \<^verbatim>\<open>assign(date=...)\<close>,
  \<^verbatim>\<open>set_index\<close> and \<^verbatim>\<open>rename_axis\<close>, row by row.
\<close>

fun assign_date :: "(string \<Rightarrow> date option) \<Rightarrow> (nat \<times> raw_row) list \<Rightarrow> error + game list" where
  "assign_date strptime [] = Inr []"
| "assign_date strptime ((i, r) # rows) =
     (case to_datetime strptime (Date r) of
        Inl e \<Rightarrow> Inl e
      | Inr d \<Rightarrow>
          (case assign_date strptime rows of
             Inl e \<Rightarrow> Inl e
           | Inr gs \<Rightarrow>
               Inr (\<lparr>game_id = i, date = d,
                      away_team = Visitor_Neutral r, away_points = PTS r,
                      home_team = Home_Neutral r, home_points = PTS_1 r\<rparr> # gs)))"

text \<open>
  The sort key of a row by \<^verbatim>\<open>(game_id, date)\<close>, in lexicographic order, a missing date
  after every date (\<^verbatim>\<open>na_position='last'\<close>).
\<close>

definition index_key :: "'a index_scheme \<Rightarrow> nat \<times> nat \<times> int" where
  "index_key r = (game_id r, case date r of None \<Rightarrow> (1, 0) | Some d \<Rightarrow> (0, d))"

definition sort_index :: "game list \<Rightarrow> game list" where
  "sort_index gs = sort_key index_key gs"

definition games :: "(string \<Rightarrow> date option) \<Rightarrow> raw_row list \<Rightarrow> error + game list" where
  "games strptime csv =
     (case assign_date strptime (dropna_thresh 4 (enumerate 0 csv)) of
        Inl e \<Rightarrow> Inl e
      | Inr gs \<Rightarrow> Inr (sort_index gs))"

text \<open>
  What the rest of the notebook relies on: the \<^verbatim>\<open>game_id\<close>s of \<^verbatim>\<open>games\<close> increase
  strictly along the table (they are row numbers of the file), so no two games share one.
\<close>

definition index_ok :: "game list \<Rightarrow> bool" where
  "index_ok gs \<longleftrightarrow> sorted_wrt (<) (map game_id gs)"

section \<open>Wide to long: melt\<close>

text \<open>
  \<^verbatim>\<open>
  tidy = pd.melt(games.reset_index(),
                 id_vars=['game_id', 'date'], value_vars=['away_team', 'home_team'],
                 value_name='team').sort_values(['game_id', 'date'])
  \<close>
  \<^verbatim>\<open>melt\<close> stacks one block of rows per value column, in the order of \<^verbatim>\<open>value_vars\<close>;
  \<^verbatim>\<open>sort_values\<close> on two columns is a stable (lexicographic) sort.
\<close>

definition away_row :: "game \<Rightarrow> long_row" where
  "away_row g = \<lparr>game_id = game_id g, date = date g, variable = Away_team, team = away_team g\<rparr>"

definition home_row :: "game \<Rightarrow> long_row" where
  "home_row g = \<lparr>game_id = game_id g, date = date g, variable = Home_team, team = home_team g\<rparr>"

definition melt :: "game list \<Rightarrow> long_row list" where
  "melt gs = map away_row gs @ map home_row gs"

definition tidy :: "game list \<Rightarrow> long_row list" where
  "tidy gs = sort_key index_key (melt gs)"

section \<open>The rest calculator\<close>

text \<open>
  \<^verbatim>\<open>
  tidy['rest'] = tidy.groupby('team').date.diff().dt.days - 1
  \<close>
  \<^verbatim>\<open>groupby('team')\<close> puts the rows with the same team name in one group, in table order
  (a row with no team name is in no group); \<^verbatim>\<open>diff\<close> subtracts from each date the date
  one row earlier in the same group. The table is walked front to back; \<open>seen\<close> holds the
  rows already passed, latest first, so the row one earlier in the group of team \<open>t\<close> is the
  first row of \<open>seen\<close> whose team is \<open>t\<close>.
\<close>

definition shift_in_group :: "long_row list \<Rightarrow> long_row \<Rightarrow> long_row option" where
  "shift_in_group seen r =
     (case team r of None \<Rightarrow> None | Some t \<Rightarrow> find (\<lambda>s. team s = Some t) seen)"

text \<open>The difference of two dates in days; \<^verbatim>\<open>NaT\<close> when either is \<^verbatim>\<open>NaT\<close>.\<close>

definition date_sub :: "date option \<Rightarrow> date option \<Rightarrow> int option" where
  "date_sub a b = (case (a, b) of (Some x, Some y) \<Rightarrow> Some (x - y) | _ \<Rightarrow> None)"

fun groupby_team_date_diff :: "long_row list \<Rightarrow> long_row list \<Rightarrow> int option list" where
  "groupby_team_date_diff seen [] = []"
| "groupby_team_date_diff seen (r # rs) =
     (case shift_in_group seen r of
        None \<Rightarrow> None
      | Some s \<Rightarrow> date_sub (date r) (date s)) # groupby_team_date_diff (r # seen) rs"

definition assign_rest :: "long_row list \<Rightarrow> rest_row list" where
  "assign_rest T =
     map2 (\<lambda>r x. long_row.extend r \<lparr>rest = map_option (\<lambda>days. days - 1) x\<rparr>)
       T (groupby_team_date_diff [] T)"

text \<open>\<^verbatim>\<open>tidy\<close> as it stands after the assignment of the \<^verbatim>\<open>rest\<close> column.\<close>

definition tidy_rest :: "game list \<Rightarrow> rest_row list" where
  "tidy_rest gs = assign_rest (tidy gs)"

section \<open>Long to wide: pivot\<close>

text \<open>
  \<^verbatim>\<open>
  by_game = pd.pivot_table(tidy, values='rest',
                           index=['game_id', 'date'],
                           columns='variable').rename(
      columns={'away_team': 'away_rest', 'home_team': 'home_rest'}
  )
  \<close>
  \<^verbatim>\<open>pivot_table\<close> groups by \<^verbatim>\<open>(game_id, date, variable)\<close>, takes the mean of \<^verbatim>\<open>rest\<close> in
  each group (its default \<^verbatim>\<open>aggfunc\<close>) and unstacks \<^verbatim>\<open>variable\<close> into columns. A row
  whose \<^verbatim>\<open>date\<close> is \<^verbatim>\<open>NaT\<close> is in no group; the mean skips missing values and is
  missing when nothing is left; a cell with no group is missing. The result has one row
  for each \<^verbatim>\<open>(game_id, date)\<close> that is left in a group, in sorted order.

  The notebook does not say which pandas it runs on, and \<^verbatim>\<open>pivot_table\<close> with its
  default \<^verbatim>\<open>dropna=True\<close> differs between releases in one point. The releases of the
  notebook's time (its kernel is Python 3.5.2, of 2016) keep every group. Later releases
  drop the groups whose mean is missing before they unstack
  (\<^verbatim>\<open>agged = agged.dropna(how="all")\<close> in \<^verbatim>\<open>pivot_table\<close>), so that there a game whose
  two rests are both missing has no row in \<^verbatim>\<open>by_game\<close>. Which of the two the library does
  is a parameter of the model.
\<close>

datatype pivot_dropna = Keeps_groups | Drops_groups

definition mean :: "int option list \<Rightarrow> rat option" where
  "mean xs =
     (let vs = List.map_filter (\<lambda>x. x) xs
      in if vs = [] then None else Some (of_int (sum_list vs) / of_nat (length vs)))"

definition group_mean :: "rest_row list \<Rightarrow> nat \<times> date \<Rightarrow> variable \<Rightarrow> rat option" where
  "group_mean T k v =
     mean (map rest (filter (\<lambda>r. game_id r = fst k \<and> date r = Some (snd k) \<and> variable r = v) T))"

definition pivot_index :: "pivot_dropna \<Rightarrow> rest_row list \<Rightarrow> (nat \<times> date) list" where
  "pivot_index p T =
     sort (remdups (List.map_filter (\<lambda>r. map_option (\<lambda>d. (game_id r, d)) (date r))
       (case p of Keeps_groups \<Rightarrow> T | Drops_groups \<Rightarrow> filter (\<lambda>r. rest r \<noteq> None) T)))"

definition pivot_table :: "pivot_dropna \<Rightarrow> rest_row list \<Rightarrow> by_game_row list" where
  "pivot_table p T =
     map (\<lambda>k. \<lparr>game_id = fst k, date = Some (snd k),
                by_game_row.away_rest = group_mean T k Away_team,
                by_game_row.home_rest = group_mean T k Home_team\<rparr>)
       (pivot_index p T)"

definition by_game :: "pivot_dropna \<Rightarrow> game list \<Rightarrow> by_game_row list" where
  "by_game p gs = pivot_table p (tidy_rest gs)"

text \<open>
  The columns of the pivot: unstacking makes a column of every tag that is left in a
  group, in sorted order, and \<^verbatim>\<open>rename\<close> gives the columns that are there their new
  labels. A tag that is left in no group has no column in \<^verbatim>\<open>by_game\<close>.
\<close>

definition pivot_columns :: "pivot_dropna \<Rightarrow> rest_row list \<Rightarrow> variable list" where
  "pivot_columns p T =
     filter (\<lambda>v. list_ex (\<lambda>r. variable r = v \<and> date r \<noteq> None)
                   (case p of Keeps_groups \<Rightarrow> T | Drops_groups \<Rightarrow> filter (\<lambda>r. rest r \<noteq> None) T))
       [Away_team, Home_team]"

definition rename_columns :: "variable \<Rightarrow> string" where
  "rename_columns v = (case v of Away_team \<Rightarrow> ''away_rest'' | Home_team \<Rightarrow> ''home_rest'')"

definition by_game_columns :: "pivot_dropna \<Rightarrow> game list \<Rightarrow> string list" where
  "by_game_columns p gs = map rename_columns (pivot_columns p (tidy_rest gs))"

section \<open>Joining the rest columns onto the games\<close>

text \<open>
  \<^verbatim>\<open>
  df = pd.concat([games, by_game], axis='columns')
  \<close>
  An outer join on the index: one row for every index label of either table, with the
  cells of a table that has no such label missing. The rows come in the order of
  \<^verbatim>\<open>games\<close>, followed by the labels only \<^verbatim>\<open>by_game\<close> has. The columns are those of
  \<^verbatim>\<open>games\<close>, followed by those of \<^verbatim>\<open>by_game\<close>. (Where \<^verbatim>\<open>pivot_table\<close> left a whole column
  out for want of any value, its cells read as missing in the rows.)
\<close>

definition same_index :: "'a index_scheme \<Rightarrow> 'b index_scheme \<Rightarrow> bool" where
  "same_index a b \<longleftrightarrow> game_id a = game_id b \<and> date a = date b"

definition join_rest :: "game \<Rightarrow> by_game_row option \<Rightarrow> df_row" where
  "join_rest g b =
     game.extend g
       (case b of
          None \<Rightarrow> \<lparr>away_rest = None, home_rest = None\<rparr>
        | Some x \<Rightarrow> \<lparr>away_rest = by_game_row.away_rest x, home_rest = by_game_row.home_rest x\<rparr>)"

definition rest_only :: "by_game_row \<Rightarrow> df_row" where
  "rest_only b =
     \<lparr>game_id = game_id b, date = date b,
      away_team = None, away_points = None, home_team = None, home_points = None,
      away_rest = by_game_row.away_rest b, home_rest = by_game_row.home_rest b\<rparr>"

definition concat_columns :: "game list \<Rightarrow> by_game_row list \<Rightarrow> df_row list" where
  "concat_columns gs bs =
     map (\<lambda>g. join_rest g (find (same_index g) bs)) gs @
     map rest_only (filter (\<lambda>b. \<not> list_ex (\<lambda>g. same_index g b) gs) bs)"

definition df :: "pivot_dropna \<Rightarrow> game list \<Rightarrow> df_row list" where
  "df p gs = concat_columns gs (by_game p gs)"

definition df_columns :: "pivot_dropna \<Rightarrow> game list \<Rightarrow> string list" where
  "df_columns p gs =
     [''away_team'', ''away_points'', ''home_team'', ''home_points''] @ by_game_columns p gs"

section \<open>The difference in rest\<close>

text \<open>
  \<^verbatim>\<open>
  delta = (df['home_rest'] - df['away_rest']).dropna().astype(int)
  \<close>
  \<^verbatim>\<open>df['home_rest']\<close> and then \<^verbatim>\<open>df['away_rest']\<close> raise \<^verbatim>\<open>KeyError\<close> if the frame has no
  such column. The difference is missing where either rest is; \<^verbatim>\<open>dropna\<close> removes those
  labels; \<^verbatim>\<open>astype(int)\<close> cuts a number off towards zero. The first argument is the list of
  the column labels of the frame, the second its rows.
\<close>

definition astype_int :: "rat \<Rightarrow> int" where
  "astype_int x = (if 0 \<le> x then \<lfloor>x\<rfloor> else \<lceil>x\<rceil>)"

definition delta ::
  "string list \<Rightarrow> 'a df_row_scheme list \<Rightarrow> error + ((nat \<times> date option) \<times> int) list" where
  "delta cols fr =
     (if ''home_rest'' \<notin> set cols then Inl (KeyError ''home_rest'')
      else if ''away_rest'' \<notin> set cols then Inl (KeyError ''away_rest'')
      else Inr (List.map_filter
             (\<lambda>r. case (home_rest r, away_rest r) of
                    (Some h, Some a) \<Rightarrow> Some ((game_id r, date r), astype_int (h - a))
                  | _ \<Rightarrow> None)
             fr))"

section \<open>The outcome and the model\<close>

text \<open>
  \<^verbatim>\<open>
  df['home_win'] = df.home_points > df.away_points
  \<close>
  A comparison with a missing number is false.
\<close>

definition points_gt :: "int option \<Rightarrow> int option \<Rightarrow> bool" where
  "points_gt a b = (case (a, b) of (Some x, Some y) \<Rightarrow> y < x | _ \<Rightarrow> False)"

definition assign_home_win :: "df_row list \<Rightarrow> df_win_row list" where
  "assign_home_win fr =
     map (\<lambda>r. df_row.extend r \<lparr>home_win = points_gt (home_points r) (away_points r)\<rparr>) fr"

definition df_home_win :: "pivot_dropna \<Rightarrow> game list \<Rightarrow> df_win_row list" where
  "df_home_win p gs = assign_home_win (df p gs)"

definition df_home_win_columns :: "pivot_dropna \<Rightarrow> game list \<Rightarrow> string list" where
  "df_home_win_columns p gs = df_columns p gs @ [''home_win'']"

text \<open>
  \<^verbatim>\<open>
  mod = sm.logit('home_win ~ home_strength + away_strength + home_rest + away_rest', df)
  \<close>
  The fit uses the complete cases: the rows in which no variable of the formula is
  missing. \<^verbatim>\<open>home_win\<close> is never missing. The two strength columns are assigned by code
  that is not in the notebook, so they are parameters here. A formula that names a rest
  column the frame does not have cannot be evaluated: the formula library raises its
  error. The first argument is the list of the column labels of the frame, the last its
  rows.
\<close>

definition complete_cases ::
  "string list \<Rightarrow> ('a df_row_scheme \<Rightarrow> rat option) \<Rightarrow> ('a df_row_scheme \<Rightarrow> rat option) \<Rightarrow>
   'a df_row_scheme list \<Rightarrow> error + 'a df_row_scheme list" where
  "complete_cases cols home_strength_of away_strength_of fr =
     (if ''home_rest'' \<in> set cols \<and> ''away_rest'' \<in> set cols
      then Inr (filter (\<lambda>r. home_strength_of r \<noteq> None \<and> away_strength_of r \<noteq> None \<and>
                  home_rest r \<noteq> None \<and> away_rest r \<noteq> None) fr)
      else Inl FormulaError)"

section \<open>Win percentages and team strength\<close>

text \<open>
  Steps 1.1 to 3 of the notebook's mini project are blanks (\<^verbatim>\<open>id_vars = ...\<close>,
  \<^verbatim>\<open>games['win'] = ...\<close>, \<^verbatim>\<open>wins = games.groupby(...)['win'].agg(...)\<close>,
  \<^verbatim>\<open>win_percent = ...\<close>) whose code is loaded from \<^verbatim>\<open>solutions/solutions_tidy.py\<close>, a
  file that is not among the sources. What remains in the notebook are the call of
  \<^verbatim>\<open>pd.melt\<close> with \<^verbatim>\<open>var_name='home_or_away'\<close> and \<^verbatim>\<open>value_name='team'\<close>, the hints and the
  goal tables; the definitions of this section follow those and the specification.
\<close>

text \<open>
  Modelled from the spec: the melt of step 1.1 ("melts in the win/loss outcome per team per
  game"), whose \<^verbatim>\<open>id_vars\<close> and \<^verbatim>\<open>value_vars\<close> are blanks in the notebook. One row per
  (game, team) pair that carries \<^verbatim>\<open>home_win\<close> and the tag \<^verbatim>\<open>home_or_away\<close>; home rows
  first, as in the notebook's goal table.
\<close>

definition melt_outcome :: "df_win_row list \<Rightarrow> outcome_row list" where
  "melt_outcome fr =
     map (\<lambda>r. \<lparr>game_id = game_id r, date = date r, outcome_row.home_win = home_win r,
                home_or_away = Home_team, outcome_row.team = home_team r\<rparr>) fr @
     map (\<lambda>r. \<lparr>game_id = game_id r, date = date r, outcome_row.home_win = home_win r,
                home_or_away = Away_team, outcome_row.team = away_team r\<rparr>) fr"

text \<open>
  Modelled from the spec: the assignment \<^verbatim>\<open>games['win'] = ...\<close> of step 1.2, a blank in
  the notebook, after its hint: "Must either have \<^verbatim>\<open>games.home_win\<close> be True and
  \<^verbatim>\<open>games.home_or_away == 'home_team'\<close>, [or] \<^verbatim>\<open>games.home_win\<close> be False and
  \<^verbatim>\<open>games.home_or_away == 'away_team'\<close>".
\<close>

definition assign_win :: "outcome_row list \<Rightarrow> win_row list" where
  "assign_win fr =
     map (\<lambda>r. outcome_row.extend r
                \<lparr>win = ((outcome_row.home_win r \<and> home_or_away r = Home_team) \<or>
                        (\<not> outcome_row.home_win r \<and> home_or_away r = Away_team))\<rparr>) fr"

text \<open>
  Modelled from the spec: the aggregate \<^verbatim>\<open>'sum'\<close> of the hint to step 1.3, which adds
  the flags of a group up as 0 and 1.
\<close>

definition agg_sum :: "bool list \<Rightarrow> nat" where
  "agg_sum bs = sum_list (map of_bool bs)"

text \<open>Modelled from the spec: the aggregate \<^verbatim>\<open>'count'\<close> of the hint to step 1.3.\<close>

definition agg_count :: "bool list \<Rightarrow> nat" where
  "agg_count bs = length bs"

text \<open>
  Modelled from the spec: the aggregate behind \<^verbatim>\<open>win_pct\<close> ("win percent" in step 1.3),
  the mean of the flags of a group.
\<close>

definition agg_mean :: "bool list \<Rightarrow> rat" where
  "agg_mean bs = sum_list (map of_bool bs) / of_nat (length bs)"

text \<open>
  Modelled from the spec: the aggregation \<^verbatim>\<open>wins = games.groupby(...)['win'].agg(...)\<close>
  of step 1.3, a blank in the notebook ("aggregates win counts and percentages grouped by
  (team, home/away)"; hint: \<^verbatim>\<open>{'n_wins': 'sum', 'n_games': 'count', ...}\<close>). The table is
  indexed by the pair \<^verbatim>\<open>(team, home_or_away)\<close>, so it is a map from that pair to its row; a
  pair with no row in the long table has none in \<^verbatim>\<open>wins\<close>. The three columns are the
  sum, the count and the mean of the group's flags.
\<close>

definition wins :: "win_row list \<Rightarrow> string \<times> variable \<Rightarrow> wins_row option" where
  "wins fr k =
     (let grp = map win (filter (\<lambda>r. outcome_row.team r = Some (fst k) \<and> home_or_away r = snd k) fr)
      in if grp = [] then None
         else Some \<lparr>n_wins = agg_sum grp, n_games = agg_count grp, win_pct = agg_mean grp\<rparr>)"

text \<open>
  Modelled from the spec: \<^verbatim>\<open>win_percent = ...\<close> of step 2, a blank in the notebook: a
  series indexed by team name holding "each team's overall win percentage", its wins over
  its games, home and away rows of \<^verbatim>\<open>wins\<close> together.
\<close>

definition win_percent :: "(string \<times> variable \<Rightarrow> wins_row option) \<Rightarrow> string \<Rightarrow> rat option" where
  "win_percent w t =
     (let rows = List.map_filter (\<lambda>v. w (t, v)) [Away_team, Home_team]
      in if rows = [] then None
         else Some (of_nat (sum_list (map n_wins rows)) / of_nat (sum_list (map n_games rows))))"

text \<open>
  Modelled from the spec: step 3, an empty cell in the notebook ("maps each team's overall
  win percentage back onto each game as \<^verbatim>\<open>home_strength\<close>/\<^verbatim>\<open>away_strength\<close> via a lookup";
  hint: \<^verbatim>\<open>pd.Series.map\<close>; "also calculate \<^verbatim>\<open>point_diff\<close> (home - away) and
  \<^verbatim>\<open>rest_diff\<close> (home - away)"). The lookup of one cell comes first: a team name that is
  missing, or that the series does not hold, maps to a missing strength.
\<close>

definition series_map :: "string option \<Rightarrow> (string \<Rightarrow> rat option) \<Rightarrow> rat option" where
  "series_map c s = (case c of None \<Rightarrow> None | Some t \<Rightarrow> s t)"

text \<open>
  Modelled from the spec: the assignment of step 3, which adds \<^verbatim>\<open>away_strength\<close>,
  \<^verbatim>\<open>home_strength\<close>, \<^verbatim>\<open>point_diff\<close> and \<^verbatim>\<open>rest_diff\<close> to \<^verbatim>\<open>df\<close>.
\<close>

definition assign_strength :: "(string \<Rightarrow> rat option) \<Rightarrow> df_win_row list \<Rightarrow> model_row list" where
  "assign_strength s fr =
     map (\<lambda>r. df_win_row.extend r
                \<lparr>away_strength = series_map (away_team r) s,
                 home_strength = series_map (home_team r) s,
                 point_diff = (case (home_points r, away_points r) of
                                 (Some h, Some a) \<Rightarrow> Some (h - a) | _ \<Rightarrow> None),
                 rest_diff = (case (home_rest r, away_rest r) of
                                (Some h, Some a) \<Rightarrow> Some (h - a) | _ \<Rightarrow> None)\<rparr>) fr"

text \<open>
  Modelled from the spec: the long table of steps 1.1 and 1.2, as a function of the games.
\<close>

definition games_long :: "pivot_dropna \<Rightarrow> game list \<Rightarrow> win_row list" where
  "games_long p gs = assign_win (melt_outcome (df_home_win p gs))"

text \<open>Modelled from the spec: \<^verbatim>\<open>wins\<close> of step 1.3, as a function of the games.\<close>

definition wins_table :: "pivot_dropna \<Rightarrow> game list \<Rightarrow> string \<times> variable \<Rightarrow> wins_row option" where
  "wins_table p gs = wins (games_long p gs)"

text \<open>Modelled from the spec: \<^verbatim>\<open>df\<close> after step 3, as a function of the games.\<close>

definition df_strength :: "pivot_dropna \<Rightarrow> game list \<Rightarrow> model_row list" where
  "df_strength p gs = assign_strength (win_percent (wins_table p gs)) (df_home_win p gs)"

section \<open>Auxiliary notions\<close>

text \<open>
  What follows is used in the statements and proofs below and is not part of the
  notebook. A team plays in a game when it is the away team or the home team:
\<close>

abbreviation plays :: "string \<Rightarrow> game \<Rightarrow> bool" where
  "plays t g \<equiv> away_team g = Some t \<or> home_team g = Some t"

text \<open>The two rows a game contributes to the long table.\<close>

definition rows_of :: "game \<Rightarrow> long_row list" where
  "rows_of g = [away_row g, home_row g]"

text \<open>
  The rest of one row given the rows before it, and the \<^verbatim>\<open>rest\<close> column built row by row;
  \<open>assign_rest\<close> is \<open>rest_from []\<close>.
\<close>

definition rest_of :: "long_row list \<Rightarrow> long_row \<Rightarrow> int option" where
  "rest_of seen r =
     map_option (\<lambda>days. days - 1)
       (case shift_in_group seen r of None \<Rightarrow> None | Some s \<Rightarrow> date_sub (date r) (date s))"

fun rest_from :: "long_row list \<Rightarrow> long_row list \<Rightarrow> rest_row list" where
  "rest_from seen [] = []"
| "rest_from seen (r # rs) = long_row.extend r \<lparr>rest = rest_of seen r\<rparr> # rest_from (r # seen) rs"

text \<open>
  The rows passed when the walk reaches game number \<open>k\<close> of the table, latest first, and
  the rests of the two rows of that game.
\<close>

definition seen_before :: "game list \<Rightarrow> nat \<Rightarrow> long_row list" where
  "seen_before gs k = rev (concat (map rows_of (take k gs)))"

definition away_rest_at :: "game list \<Rightarrow> nat \<Rightarrow> int option" where
  "away_rest_at gs k = rest_of (seen_before gs k) (away_row (gs ! k))"

definition home_rest_at :: "game list \<Rightarrow> nat \<Rightarrow> int option" where
  "home_rest_at gs k = rest_of (away_row (gs ! k) # seen_before gs k) (home_row (gs ! k))"

definition rest_rows_of :: "game list \<Rightarrow> nat \<Rightarrow> rest_row list" where
  "rest_rows_of gs k =
     [long_row.extend (away_row (gs ! k)) \<lparr>rest = away_rest_at gs k\<rparr>,
      long_row.extend (home_row (gs ! k)) \<lparr>rest = home_rest_at gs k\<rparr>]"

text \<open>
  The positions of the games that have a date, the index label of such a game, and the row
  the pivot makes of it.
\<close>

definition dated :: "game list \<Rightarrow> nat list" where
  "dated gs = filter (\<lambda>k. date (gs ! k) \<noteq> None) [0..<length gs]"

definition label :: "game list \<Rightarrow> nat \<Rightarrow> nat \<times> date" where
  "label gs k = (game_id (gs ! k), the (date (gs ! k)))"

definition pivot_row :: "game list \<Rightarrow> nat \<Rightarrow> by_game_row" where
  "pivot_row gs k =
     \<lparr>game_id = game_id (gs ! k), date = date (gs ! k),
      by_game_row.away_rest = map_option of_int (away_rest_at gs k),
      by_game_row.home_rest = map_option of_int (home_rest_at gs k)\<rparr>"

text \<open>
  Whether game number \<open>k\<close> keeps a row in the pivot: always where the pivot keeps every
  group, and otherwise if one of its two rests is there.
\<close>

definition has_row :: "pivot_dropna \<Rightarrow> game list \<Rightarrow> nat \<Rightarrow> bool" where
  "has_row p gs k \<longleftrightarrow> p = Keeps_groups \<or> away_rest_at gs k \<noteq> None \<or> home_rest_at gs k \<noteq> None"

text \<open>The row of \<^verbatim>\<open>df\<close> for game number \<open>k\<close>.\<close>

definition df_row_at :: "game list \<Rightarrow> nat \<Rightarrow> df_row" where
  "df_row_at gs k =
     join_rest (gs ! k) (if date (gs ! k) = None then None else Some (pivot_row gs k))"

text \<open>
  The row numbers of the file that survive \<^verbatim>\<open>dropna\<close>, and what it means that a game
  was loaded from a numbered row of the file.
\<close>

definition kept :: "raw_row list \<Rightarrow> nat list" where
  "kept csv = filter (\<lambda>i. 4 \<le> count_non_null (csv ! i)) [0..<length csv]"

definition loaded :: "(string \<Rightarrow> date option) \<Rightarrow> nat \<times> raw_row \<Rightarrow> game \<Rightarrow> bool" where
  "loaded strptime ir g \<longleftrightarrow>
     game_id g = fst ir \<and> to_datetime strptime (Date (snd ir)) = Inr (date g) \<and>
     away_team g = Visitor_Neutral (snd ir) \<and> away_points g = PTS (snd ir) \<and>
     home_team g = Home_Neutral (snd ir) \<and> home_points g = PTS_1 (snd ir)"

text \<open>
  The team of a game in a role, whether the home team scored more, and the row of the
  second long table for a game and a role.
\<close>

definition role_team :: "variable \<Rightarrow> game \<Rightarrow> string option" where
  "role_team v g = (case v of Away_team \<Rightarrow> away_team g | Home_team \<Rightarrow> home_team g)"

definition home_won :: "game \<Rightarrow> bool" where
  "home_won g = points_gt (home_points g) (away_points g)"

definition outcome_of :: "variable \<Rightarrow> game \<Rightarrow> win_row" where
  "outcome_of v g =
     \<lparr>game_id = game_id g, date = date g, outcome_row.home_win = home_won g,
      home_or_away = v, outcome_row.team = role_team v g,
      win = (home_won g \<longleftrightarrow> v = Home_team)\<rparr>"

text \<open>
  A team's games and wins over the season, home and away together, counted on the games
  table: a win is a home game the home team won or an away game it did not win.
\<close>

definition games_played :: "string \<Rightarrow> game list \<Rightarrow> nat" where
  "games_played t gs =
     length (filter (\<lambda>g. away_team g = Some t) gs) + length (filter (\<lambda>g. home_team g = Some t) gs)"

definition games_won :: "string \<Rightarrow> game list \<Rightarrow> nat" where
  "games_won t gs =
     length (filter (\<lambda>g. away_team g = Some t \<and> \<not> home_won g) gs) +
     length (filter (\<lambda>g. home_team g = Some t \<and> home_won g) gs)"

text \<open>
  A small season on which the theorems are exercised: four games in the order of the
  schedule (day 16735 is 27 October 2015).
\<close>

definition season :: "game list" where
  "season =
     [\<lparr>game_id = 0, date = Some 16735, away_team = Some ''DET'', away_points = Some 106,
        home_team = Some ''ATL'', home_points = Some 94\<rparr>,
      \<lparr>game_id = 1, date = Some 16735, away_team = Some ''CLE'', away_points = Some 95,
        home_team = Some ''CHI'', home_points = Some 97\<rparr>,
      \<lparr>game_id = 2, date = Some 16737, away_team = Some ''CHI'', away_points = Some 94,
        home_team = Some ''DET'', home_points = Some 98\<rparr>,
      \<lparr>game_id = 3, date = Some 16738, away_team = Some ''DET'', away_points = Some 88,
        home_team = Some ''ATL'', home_points = Some 90\<rparr>]"

text \<open>The first game of that season alone: a table in which no team has played before.\<close>

definition opening_night :: "game list" where
  "opening_night = take 1 season"

text \<open>
  A schedule file of six lines with a parser that knows its two dates. The second line is
  a separator, with one cell only; the fourth has no date; the last two have no points
  yet, and three and four cells.
\<close>

definition demo_strptime :: "string \<Rightarrow> date option" where
  "demo_strptime s =
     (if s = ''Tue, Oct 27, 2015'' then Some 16735
      else if s = ''Wed, Oct 28, 2015'' then Some 16736
      else None)"

definition demo_csv :: "raw_row list" where
  "demo_csv =
     [\<lparr>Date = Some ''Tue, Oct 27, 2015'', Visitor_Neutral = Some ''Detroit Pistons'', PTS = Some 106,
        Home_Neutral = Some ''Atlanta Hawks'', PTS_1 = Some 94, other_cells = [Some ''8:00 pm'', None]\<rparr>,
      \<lparr>Date = Some ''Playoffs'', Visitor_Neutral = None, PTS = None,
        Home_Neutral = None, PTS_1 = None, other_cells = [None, None]\<rparr>,
      \<lparr>Date = Some ''Wed, Oct 28, 2015'', Visitor_Neutral = Some ''Philadelphia 76ers'', PTS = Some 95,
        Home_Neutral = Some ''Boston Celtics'', PTS_1 = Some 112, other_cells = [Some ''7:30 pm'', None]\<rparr>,
      \<lparr>Date = None, Visitor_Neutral = Some ''Chicago Bulls'', PTS = Some 115,
        Home_Neutral = Some ''Brooklyn Nets'', PTS_1 = Some 100, other_cells = [None, None]\<rparr>,
      \<lparr>Date = Some ''Wed, Oct 28, 2015'', Visitor_Neutral = Some ''Utah Jazz'', PTS = None,
        Home_Neutral = Some ''Detroit Pistons'', PTS_1 = None, other_cells = [None, None]\<rparr>,
      \<lparr>Date = Some ''Wed, Oct 28, 2015'', Visitor_Neutral = Some ''Denver Nuggets'', PTS = None,
        Home_Neutral = Some ''Houston Rockets'', PTS_1 = None, other_cells = [Some ''8:00 pm'', None]\<rparr>]"

section \<open>The index of the games table\<close>

text \<open>Strictly increasing \<^verbatim>\<open>game_id\<close>s are distinct, and sorted by the index.\<close>

lemma index_ok_distinct: "index_ok gs \<Longrightarrow> distinct (map game_id gs)"
  unfolding index_ok_def using strict_sorted_iff by blast

lemma index_key_mono: "game_id a < game_id b \<Longrightarrow> index_key a \<le> index_key b"
  by (simp add: index_key_def less_eq_prod_def)

lemma index_ok_sorted_key: "index_ok gs \<Longrightarrow> sorted (map index_key gs)"
  unfolding index_ok_def
  by (induction gs) (auto simp: index_key_mono)

lemma game_id_less:
  assumes "index_ok gs" "a < b" "b < length gs"
  shows "game_id (gs ! a) < game_id (gs ! b)"
  using assms by (simp add: index_ok_def sorted_wrt_iff_nth_less)

lemma game_id_inj:
  assumes "index_ok gs" "a < length gs" "b < length gs" "game_id (gs ! a) = game_id (gs ! b)"
  shows "a = b"
proof (rule ccontr)
  assume "a \<noteq> b"
  then consider "a < b" | "b < a" by linarith
  then show False
    using game_id_less [OF assms(1), of a b] game_id_less [OF assms(1), of b a] assms(2,3,4)
    by cases simp_all
qed

lemma filter_single:
  assumes "distinct (map game_id gs)" "g \<in> set gs" "P g"
    and "\<And>x. P x \<Longrightarrow> game_id x = game_id g"
  shows "filter P gs = [g]"
  using assms(1,2)
proof (induction gs)
  case Nil
  then show ?case by simp
next
  case (Cons a gs)
  show ?case
  proof (cases "a = g")
    case True
    have "\<forall>x \<in> set gs. \<not> P x"
    proof
      fix x assume "x \<in> set gs"
      then have "game_id x \<in> set (map game_id gs)" by simp
      moreover have "game_id g \<notin> set (map game_id gs)" using Cons.prems(1) True by simp
      ultimately have "game_id x \<noteq> game_id g" by metis
      then show "\<not> P x" using assms(4) by blast
    qed
    then have "filter P gs = []" by (simp add: filter_empty_conv)
    then show ?thesis using True assms(3) by simp
  next
    case False
    then have "g \<in> set gs" using Cons.prems by simp
    moreover have "game_id g \<in> set (map game_id gs)" using \<open>g \<in> set gs\<close> by simp
    moreover have "game_id a \<notin> set (map game_id gs)" using Cons.prems(1) by simp
    ultimately have "game_id a \<noteq> game_id g" by metis
    then have "\<not> P a" using assms(4) by blast
    then show ?thesis using Cons \<open>g \<in> set gs\<close> by simp
  qed
qed

lemma find_unique:
  "k \<in> set xs \<Longrightarrow> (\<And>x. x \<in> set xs \<Longrightarrow> P x \<longleftrightarrow> x = k) \<Longrightarrow> find P xs = Some k"
  by (induction xs) auto

lemma find_map_option: "find P (map f xs) = map_option f (find (\<lambda>x. P (f x)) xs)"
  by (induction xs) auto

lemma map_upt_nth: "map (\<lambda>k. f (xs ! k)) [0..<length xs] = map f xs"
  by (simp add: map_equality_iff)

text \<open>Facts about the example season.\<close>

lemma season_ok: "index_ok season"
  by (simp add: season_def index_ok_def)

lemma season_length: "length season = 4"
  by (simp add: season_def)

lemma season_nth:
  "season ! 0 = \<lparr>game_id = 0, date = Some 16735, away_team = Some ''DET'', away_points = Some 106,
        home_team = Some ''ATL'', home_points = Some 94\<rparr>"
  "season ! 1 = \<lparr>game_id = 1, date = Some 16735, away_team = Some ''CLE'', away_points = Some 95,
        home_team = Some ''CHI'', home_points = Some 97\<rparr>"
  "season ! 2 = \<lparr>game_id = 2, date = Some 16737, away_team = Some ''CHI'', away_points = Some 94,
        home_team = Some ''DET'', home_points = Some 98\<rparr>"
  "season ! 3 = \<lparr>game_id = 3, date = Some 16738, away_team = Some ''DET'', away_points = Some 88,
        home_team = Some ''ATL'', home_points = Some 90\<rparr>"
  by (simp_all add: season_def)

lemma season_nth_Suc:
  "season ! Suc 0 = \<lparr>game_id = 1, date = Some 16735, away_team = Some ''CLE'', away_points = Some 95,
        home_team = Some ''CHI'', home_points = Some 97\<rparr>"
  by (simp add: season_def)

lemma between_0_3: "0 < m \<and> m < 3 \<longleftrightarrow> m = 1 \<or> m = (2::nat)"
  by auto

section \<open>The loader\<close>

text \<open>
  \<open>assign_date\<close> fails exactly when the date of some row does not parse; otherwise it
  turns each numbered row into a game, one for one.
\<close>

lemma to_datetime_Inr:
  "to_datetime strptime c = Inr d \<longleftrightarrow>
   (c = None \<and> d = None) \<or> (\<exists>s. c = Some s \<and> strptime s \<noteq> None \<and> d = strptime s)"
  by (auto simp: to_datetime_def split: option.splits)

lemma to_datetime_returns:
  "(\<exists>d. to_datetime strptime c = Inr d) \<longleftrightarrow> (\<forall>s. c = Some s \<longrightarrow> strptime s \<noteq> None)"
  by (auto simp: to_datetime_def split: option.splits)

lemma game_fields:
  "game_id g = i \<Longrightarrow> date g = d \<Longrightarrow> away_team g = a \<Longrightarrow> away_points g = x \<Longrightarrow>
   home_team g = h \<Longrightarrow> home_points g = y \<Longrightarrow>
   g = \<lparr>game_id = i, date = d, away_team = a, away_points = x, home_team = h, home_points = y\<rparr>"
  by (cases g) simp

lemma assign_date_Inr:
  "assign_date strptime rows = Inr gs \<Longrightarrow> list_all2 (loaded strptime) rows gs"
proof (induction rows arbitrary: gs)
  case Nil
  then show ?case by simp
next
  case (Cons ir rows)
  obtain i r where ir: "ir = (i, r)" by (cases ir)
  from Cons.prems obtain d gs' where
    d: "to_datetime strptime (Date r) = Inr d" and gs': "assign_date strptime rows = Inr gs'"
    and gs: "gs = \<lparr>game_id = i, date = d, away_team = Visitor_Neutral r, away_points = PTS r,
                   home_team = Home_Neutral r, home_points = PTS_1 r\<rparr> # gs'"
    by (auto simp: ir split: sum.splits)
  show ?case using Cons.IH [OF gs'] d by (simp add: gs ir loaded_def)
qed

lemma assign_date_total:
  "(\<forall>ir \<in> set rows. \<exists>d. to_datetime strptime (Date (snd ir)) = Inr d) \<Longrightarrow>
   \<exists>gs. assign_date strptime rows = Inr gs"
proof (induction rows)
  case Nil
  then show ?case by simp
next
  case (Cons ir rows)
  obtain i r where ir: "ir = (i, r)" by (cases ir)
  from Cons obtain d gs' where "to_datetime strptime (Date r) = Inr d" "assign_date strptime rows = Inr gs'"
    by (auto simp: ir)
  then show ?case by (simp add: ir)
qed

lemma assign_date_fails:
  "\<not> (\<forall>ir \<in> set rows. \<exists>d. to_datetime strptime (Date (snd ir)) = Inr d) \<Longrightarrow>
   assign_date strptime rows = Inl ValueError"
proof (induction rows)
  case Nil
  then show ?case by simp
next
  case (Cons ir rows)
  obtain i r where ir: "ir = (i, r)" by (cases ir)
  show ?case
  proof (cases "to_datetime strptime (Date r)")
    case (Inl a)
    then have "a = ValueError" by (simp add: to_datetime_def split: option.splits)
    then show ?thesis using Inl by (simp add: ir)
  next
    case (Inr d)
    then have "\<not> (\<forall>ir \<in> set rows. \<exists>d. to_datetime strptime (Date (snd ir)) = Inr d)"
      using Cons.prems by (simp add: ir)
    then show ?thesis using Cons.IH Inr by (simp add: ir)
  qed
qed

lemma enumerate_nth: "enumerate 0 xs = map (\<lambda>i. (i, xs ! i)) [0..<length xs]"
  by (rule nth_equalityI) (simp_all add: nth_enumerate_eq)

lemma dropna_kept: "dropna_thresh 4 (enumerate 0 csv) = map (\<lambda>i. (i, csv ! i)) (kept csv)"
  by (simp add: dropna_thresh_def enumerate_nth kept_def filter_map comp_def)

lemma sorted_kept: "sorted_wrt (<) (kept csv)"
  unfolding kept_def by (rule sorted_wrt_filter) simp

lemma loaded_ids: "list_all2 (loaded strptime) rows gs \<Longrightarrow> map game_id gs = map fst rows"
  by (induction rule: list_all2_induct) (simp_all add: loaded_def)

lemma sort_index_id: "index_ok gs \<Longrightarrow> sort_index gs = gs"
  by (simp add: sort_index_def sort_key_id_if_sorted index_ok_sorted_key)

lemma loaded_cells:
  "list_all2 (loaded strptime) (map (\<lambda>i. (i, csv ! i)) ks) gs \<Longrightarrow> g \<in> set gs \<Longrightarrow>
   loaded strptime (game_id g, csv ! game_id g) g"
proof (induction ks arbitrary: gs)
  case Nil
  then show ?case by simp
next
  case (Cons i ks)
  from Cons.prems(1) obtain g' gs' where gs: "gs = g' # gs'"
    and g': "loaded strptime (i, csv ! i) g'"
    and rest: "list_all2 (loaded strptime) (map (\<lambda>i. (i, csv ! i)) ks) gs'"
    by (auto simp: list_all2_Cons1)
  show ?case
  proof (cases "g = g'")
    case True
    have "game_id g' = i" using g' by (simp add: loaded_def)
    then show ?thesis using g' True by simp
  next
    case False
    then have "g \<in> set gs'" using Cons.prems(2) gs by simp
    then show ?thesis using Cons.IH [OF rest] by simp
  qed
qed

text \<open>The loader delivers what the rest of the notebook relies on.\<close>

lemma games_index_ok:
  assumes "games strptime csv = Inr gs"
  shows "index_ok gs"
proof -
  obtain gs' where gs': "assign_date strptime (map (\<lambda>i. (i, csv ! i)) (kept csv)) = Inr gs'"
    and gs: "gs = sort_index gs'"
    using assms by (auto simp: games_def dropna_kept split: sum.splits)
  have "map game_id gs' = kept csv"
    using assign_date_Inr [OF gs'] by (simp add: loaded_ids comp_def)
  then have ok: "index_ok gs'" by (simp add: index_ok_def sorted_kept)
  then show ?thesis by (simp add: gs sort_index_id)
qed

text \<open>
  \<^bold>\<open>Claim C9.\<close> The loader drops every row of the file with fewer than 4 non-null cells,
  keeps the date, away team, away points, home team and home points of each remaining row,
  labels it with the row number as \<^verbatim>\<open>game_id\<close>, and returns the games sorted by
  \<^verbatim>\<open>(game_id, date)\<close>. The date of a game is what the parser makes of the date string of
  its row, and is missing where the row has no date string. The loader returns a table
  whenever the date string of every remaining row parses, and raises \<^verbatim>\<open>ValueError\<close>
  otherwise.
\<close>

theorem games_loader:
  "(if \<forall>i < length csv. 4 \<le> count_non_null (csv ! i) \<longrightarrow>
         (\<forall>s. Date (csv ! i) = Some s \<longrightarrow> strptime s \<noteq> None)
    then \<exists>gs. games strptime csv = Inr gs \<and>
           map game_id gs = filter (\<lambda>i. 4 \<le> count_non_null (csv ! i)) [0..<length csv] \<and>
           sorted (map index_key gs) \<and>
           (\<forall>g \<in> set gs.
              (Date (csv ! game_id g) = None \<longrightarrow> date g = None) \<and>
              (\<forall>s. Date (csv ! game_id g) = Some s \<longrightarrow> date g = strptime s) \<and>
              away_team g = Visitor_Neutral (csv ! game_id g) \<and>
              away_points g = PTS (csv ! game_id g) \<and>
              home_team g = Home_Neutral (csv ! game_id g) \<and>
              home_points g = PTS_1 (csv ! game_id g))
    else games strptime csv = Inl ValueError)"
proof (cases "\<forall>i < length csv. 4 \<le> count_non_null (csv ! i) \<longrightarrow>
         (\<forall>s. Date (csv ! i) = Some s \<longrightarrow> strptime s \<noteq> None)")
  case True
  let ?rows = "map (\<lambda>i. (i, csv ! i)) (kept csv)"
  have "\<forall>ir \<in> set ?rows. \<exists>d. to_datetime strptime (Date (snd ir)) = Inr d"
    using True by (auto simp: kept_def to_datetime_returns)
  then obtain gs where gs: "assign_date strptime ?rows = Inr gs"
    using assign_date_total by blast
  have l: "list_all2 (loaded strptime) ?rows gs" using gs by (rule assign_date_Inr)
  then have ids: "map game_id gs = kept csv" by (simp add: loaded_ids comp_def)
  then have ok: "index_ok gs" by (simp add: index_ok_def sorted_kept)
  have g: "games strptime csv = Inr gs"
    by (simp add: games_def dropna_kept gs sort_index_id [OF ok])
  have cells: "\<forall>g \<in> set gs.
              (Date (csv ! game_id g) = None \<longrightarrow> date g = None) \<and>
              (\<forall>s. Date (csv ! game_id g) = Some s \<longrightarrow> date g = strptime s) \<and>
              away_team g = Visitor_Neutral (csv ! game_id g) \<and>
              away_points g = PTS (csv ! game_id g) \<and>
              home_team g = Home_Neutral (csv ! game_id g) \<and>
              home_points g = PTS_1 (csv ! game_id g)"
  proof
    fix g assume "g \<in> set gs"
    then have "loaded strptime (game_id g, csv ! game_id g) g" using l by (rule loaded_cells [rotated])
    then show "(Date (csv ! game_id g) = None \<longrightarrow> date g = None) \<and>
              (\<forall>s. Date (csv ! game_id g) = Some s \<longrightarrow> date g = strptime s) \<and>
              away_team g = Visitor_Neutral (csv ! game_id g) \<and>
              away_points g = PTS (csv ! game_id g) \<and>
              home_team g = Home_Neutral (csv ! game_id g) \<and>
              home_points g = PTS_1 (csv ! game_id g)"
      by (auto simp: loaded_def to_datetime_Inr)
  qed
  have "\<exists>gs. games strptime csv = Inr gs \<and>
           map game_id gs = filter (\<lambda>i. 4 \<le> count_non_null (csv ! i)) [0..<length csv] \<and>
           sorted (map index_key gs) \<and>
           (\<forall>g \<in> set gs.
              (Date (csv ! game_id g) = None \<longrightarrow> date g = None) \<and>
              (\<forall>s. Date (csv ! game_id g) = Some s \<longrightarrow> date g = strptime s) \<and>
              away_team g = Visitor_Neutral (csv ! game_id g) \<and>
              away_points g = PTS (csv ! game_id g) \<and>
              home_team g = Home_Neutral (csv ! game_id g) \<and>
              home_points g = PTS_1 (csv ! game_id g))"
    using g ids [unfolded kept_def] index_ok_sorted_key [OF ok] cells
    by (intro exI [of _ gs] conjI)
  then show ?thesis unfolding if_P [OF True] .
next
  case False
  let ?rows = "map (\<lambda>i. (i, csv ! i)) (kept csv)"
  have "\<not> (\<forall>ir \<in> set ?rows. \<exists>d. to_datetime strptime (Date (snd ir)) = Inr d)"
    using False by (auto simp: kept_def to_datetime_returns)
  then have "assign_date strptime ?rows = Inl ValueError" by (rule assign_date_fails)
  then have "games strptime csv = Inl ValueError" by (simp add: games_def dropna_kept)
  then show ?thesis unfolding if_not_P [OF False] .
qed

theorem games_loader_witness:
  "games demo_strptime demo_csv =
   Inr [\<lparr>game_id = 0, date = Some 16735, away_team = Some ''Detroit Pistons'', away_points = Some 106,
          home_team = Some ''Atlanta Hawks'', home_points = Some 94\<rparr>,
        \<lparr>game_id = 2, date = Some 16736, away_team = Some ''Philadelphia 76ers'', away_points = Some 95,
          home_team = Some ''Boston Celtics'', home_points = Some 112\<rparr>,
        \<lparr>game_id = 3, date = None, away_team = Some ''Chicago Bulls'', away_points = Some 115,
          home_team = Some ''Brooklyn Nets'', home_points = Some 100\<rparr>,
        \<lparr>game_id = 5, date = Some 16736, away_team = Some ''Denver Nuggets'', away_points = None,
          home_team = Some ''Houston Rockets'', home_points = None\<rparr>] \<and>
   games (\<lambda>s. None) demo_csv = Inl ValueError"
proof -
  have len: "length demo_csv = 6" by (simp add: demo_csv_def)
  have upt: "[0..<length demo_csv] = [0, Suc 0, 2, 3, 4, 5]" by (simp add: len upt_rec)
  have n: "count_non_null (demo_csv ! 0) = 6" "count_non_null (demo_csv ! Suc 0) = 1"
    "count_non_null (demo_csv ! 2) = 6" "count_non_null (demo_csv ! 3) = 4"
    "count_non_null (demo_csv ! 4) = 3" "count_non_null (demo_csv ! 5) = 4"
    by (simp_all add: demo_csv_def count_non_null_def)
  have d: "Date (demo_csv ! 0) = Some ''Tue, Oct 27, 2015''" "Date (demo_csv ! 2) = Some ''Wed, Oct 28, 2015''"
    "Date (demo_csv ! 3) = None" "Date (demo_csv ! 5) = Some ''Wed, Oct 28, 2015''"
    by (simp_all add: demo_csv_def)
  have p: "demo_strptime ''Tue, Oct 27, 2015'' = Some 16735" "demo_strptime ''Wed, Oct 28, 2015'' = Some 16736"
    by (simp_all add: demo_strptime_def)
  have cases: "i = 0 \<or> i = Suc 0 \<or> i = 2 \<or> i = 3 \<or> i = 4 \<or> i = 5" if "i < length demo_csv" for i
    using that len by (auto simp: less_Suc_eq numeral_eq_Suc)
  have c: "\<forall>i < length demo_csv. 4 \<le> count_non_null (demo_csv ! i) \<longrightarrow>
         (\<forall>s. Date (demo_csv ! i) = Some s \<longrightarrow> demo_strptime s \<noteq> None)"
  proof (intro allI impI)
    fix i s assume "i < length demo_csv" and k: "4 \<le> count_non_null (demo_csv ! i)"
      and s: "Date (demo_csv ! i) = Some s"
    then have "i = 0 \<or> i = 2 \<or> i = 5" using cases [of i] n d by auto
    then show "demo_strptime s \<noteq> None" using s d p by auto
  qed
  have kept: "filter (\<lambda>i. 4 \<le> count_non_null (demo_csv ! i)) [0..<length demo_csv] = [0, 2, 3, 5]"
    by (simp add: upt n)
  have "\<exists>gs. games demo_strptime demo_csv = Inr gs \<and>
           map game_id gs = [0, 2, 3, 5] \<and>
           sorted (map index_key gs) \<and>
           (\<forall>g \<in> set gs.
              (Date (demo_csv ! game_id g) = None \<longrightarrow> date g = None) \<and>
              (\<forall>s. Date (demo_csv ! game_id g) = Some s \<longrightarrow> date g = demo_strptime s) \<and>
              away_team g = Visitor_Neutral (demo_csv ! game_id g) \<and>
              away_points g = PTS (demo_csv ! game_id g) \<and>
              home_team g = Home_Neutral (demo_csv ! game_id g) \<and>
              home_points g = PTS_1 (demo_csv ! game_id g))"
    using games_loader [of demo_csv demo_strptime] unfolding if_P [OF c] kept .
  then obtain gs where all: "games demo_strptime demo_csv = Inr gs \<and>
           map game_id gs = [0, 2, 3, 5] \<and>
           sorted (map index_key gs) \<and>
           (\<forall>g \<in> set gs.
              (Date (demo_csv ! game_id g) = None \<longrightarrow> date g = None) \<and>
              (\<forall>s. Date (demo_csv ! game_id g) = Some s \<longrightarrow> date g = demo_strptime s) \<and>
              away_team g = Visitor_Neutral (demo_csv ! game_id g) \<and>
              away_points g = PTS (demo_csv ! game_id g) \<and>
              home_team g = Home_Neutral (demo_csv ! game_id g) \<and>
              home_points g = PTS_1 (demo_csv ! game_id g))" ..
  then have gs: "games demo_strptime demo_csv = Inr gs"
    and ids: "map game_id gs = [0, 2, 3, 5]"
    and cells: "\<forall>g \<in> set gs.
              (Date (demo_csv ! game_id g) = None \<longrightarrow> date g = None) \<and>
              (\<forall>s. Date (demo_csv ! game_id g) = Some s \<longrightarrow> date g = demo_strptime s) \<and>
              away_team g = Visitor_Neutral (demo_csv ! game_id g) \<and>
              away_points g = PTS (demo_csv ! game_id g) \<and>
              home_team g = Home_Neutral (demo_csv ! game_id g) \<and>
              home_points g = PTS_1 (demo_csv ! game_id g)"
    by simp_all
  from ids obtain a b c e where abc: "gs = [a, b, c, e]" "game_id a = 0" "game_id b = 2" "game_id c = 3"
    "game_id e = 5"
    by (auto simp: map_eq_Cons_conv)
  have a: "a = \<lparr>game_id = 0, date = Some 16735, away_team = Some ''Detroit Pistons'', away_points = Some 106,
          home_team = Some ''Atlanta Hawks'', home_points = Some 94\<rparr>"
    using cells [rule_format, of a] abc p by (intro game_fields) (simp_all add: demo_csv_def)
  have b: "b = \<lparr>game_id = 2, date = Some 16736, away_team = Some ''Philadelphia 76ers'', away_points = Some 95,
          home_team = Some ''Boston Celtics'', home_points = Some 112\<rparr>"
    using cells [rule_format, of b] abc p by (intro game_fields) (simp_all add: demo_csv_def)
  have c: "c = \<lparr>game_id = 3, date = None, away_team = Some ''Chicago Bulls'', away_points = Some 115,
          home_team = Some ''Brooklyn Nets'', home_points = Some 100\<rparr>"
    using cells [rule_format, of c] abc by (intro game_fields) (simp_all add: demo_csv_def)
  have e: "e = \<lparr>game_id = 5, date = Some 16736, away_team = Some ''Denver Nuggets'', away_points = None,
          home_team = Some ''Houston Rockets'', home_points = None\<rparr>"
    using cells [rule_format, of e] abc p by (intro game_fields) (simp_all add: demo_csv_def)
  have 1: "games demo_strptime demo_csv = Inr [a, b, c, e]" using gs abc by simp
  have "\<not> (\<forall>i < length demo_csv. 4 \<le> count_non_null (demo_csv ! i) \<longrightarrow>
         (\<forall>s. Date (demo_csv ! i) = Some s \<longrightarrow> (\<lambda>s. None :: date option) s \<noteq> None))"
  proof
    assume "\<forall>i < length demo_csv. 4 \<le> count_non_null (demo_csv ! i) \<longrightarrow>
         (\<forall>s. Date (demo_csv ! i) = Some s \<longrightarrow> (\<lambda>s. None :: date option) s \<noteq> None)"
    from this [rule_format, of 0 "''Tue, Oct 27, 2015''"] show False using len n d by simp
  qed
  then have 2: "games (\<lambda>s. None) demo_csv = Inl ValueError"
    using games_loader [of demo_csv "\<lambda>s. None"] by (simp only: if_False)
  show ?thesis using 1 2 unfolding a b c e by (rule conjI)
qed

section \<open>The shape of the long table\<close>

text \<open>
  Sorting the melted table by the index puts the two rows of each game next to each
  other, the away row first, games in their order.
\<close>

lemma index_key_away [simp]: "index_key (away_row g) = index_key g"
  by (simp add: index_key_def away_row_def)

lemma index_key_home [simp]: "index_key (home_row g) = index_key g"
  by (simp add: index_key_def home_row_def)

lemma index_key_eq_game_id: "index_key a = index_key b \<Longrightarrow> game_id a = game_id b"
  by (simp add: index_key_def)

lemma filter_concat_rows:
  "filter (\<lambda>r. P (index_key r)) (concat (map rows_of gs)) =
   concat (map rows_of (filter (\<lambda>g. P (index_key g)) gs))"
  by (induction gs) (auto simp: rows_of_def)

lemma filter_melt:
  "filter (\<lambda>r. P (index_key r)) (melt gs) =
   map away_row (filter (\<lambda>g. P (index_key g)) gs) @ map home_row (filter (\<lambda>g. P (index_key g)) gs)"
  by (simp add: melt_def filter_map comp_def)

lemma mset_melt: "mset (concat (map rows_of gs)) = mset (melt gs)"
  by (induction gs) (auto simp: rows_of_def melt_def)

lemma sorted_concat_rows: "sorted (map index_key gs) \<Longrightarrow> sorted (map index_key (concat (map rows_of gs)))"
  by (induction gs) (auto simp: rows_of_def)

lemma key_in_rows: "r \<in> set (concat (map rows_of gs)) \<Longrightarrow> \<exists>g \<in> set gs. index_key r = index_key g"
  by (auto simp: rows_of_def)

lemma tidy_rows:
  assumes "index_ok gs"
  shows "tidy gs = concat (map rows_of gs)"
  unfolding tidy_def
proof (rule properties_for_sort_key)
  show "mset (concat (map rows_of gs)) = mset (melt gs)" by (rule mset_melt)
next
  fix k assume "k \<in> set (concat (map rows_of gs))"
  then obtain g where g: "g \<in> set gs" "index_key k = index_key g" using key_in_rows by blast
  have d: "distinct (map game_id gs)" using assms by (rule index_ok_distinct)
  have f: "filter (\<lambda>x. index_key g = index_key x) gs = [g]"
    by (rule filter_single [OF d g(1)]) (simp_all add: index_key_def)
  show "filter (\<lambda>x. index_key k = index_key x) (concat (map rows_of gs)) =
        filter (\<lambda>x. index_key k = index_key x) (melt gs)"
    using filter_concat_rows [of "\<lambda>x. index_key g = x" gs] filter_melt [of "\<lambda>x. index_key g = x" gs]
    by (simp add: g(2) f rows_of_def)
next
  show "sorted (map index_key (concat (map rows_of gs)))"
    using assms by (intro sorted_concat_rows index_ok_sorted_key)
qed

lemma length_concat_rows: "length (concat (map rows_of gs)) = 2 * length gs"
  by (induction gs) (auto simp: rows_of_def)

lemma filter_index_rows:
  assumes "distinct (map game_id gs)" "g \<in> set gs"
  shows "filter (\<lambda>r. game_id r = game_id g \<and> date r = date g) (concat (map rows_of gs)) = rows_of g"
proof -
  have "filter (\<lambda>r. game_id r = game_id g \<and> date r = date g) (concat (map rows_of gs)) =
        concat (map rows_of (filter (\<lambda>x. game_id x = game_id g \<and> date x = date g) gs))"
    by (induction gs) (auto simp: rows_of_def away_row_def home_row_def)
  also have "filter (\<lambda>x. game_id x = game_id g \<and> date x = date g) gs = [g]"
    by (rule filter_single [OF assms]) simp_all
  finally show ?thesis by simp
qed

text \<open>
  \<^bold>\<open>Claim C2.\<close> For every game of the wide table, the long table \<^verbatim>\<open>tidy\<close> holds exactly two
  rows with that game's \<^verbatim>\<open>game_id\<close> and \<^verbatim>\<open>date\<close>: one tagged \<^verbatim>\<open>away_team\<close> with the away
  team's name and one tagged \<^verbatim>\<open>home_team\<close> with the home team's name. So the long table
  has twice as many rows as there are games.
\<close>

theorem tidy_two_rows_per_game:
  assumes "index_ok gs"
  shows "length (tidy gs) = 2 * length gs \<and>
         (\<forall>g \<in> set gs.
            filter (\<lambda>r. game_id r = game_id g \<and> date r = date g) (tidy gs) =
              [\<lparr>game_id = game_id g, date = date g, variable = Away_team, team = away_team g\<rparr>,
               \<lparr>game_id = game_id g, date = date g, variable = Home_team, team = home_team g\<rparr>])"
  using assms filter_index_rows [OF index_ok_distinct [OF assms]]
  by (simp add: tidy_rows length_concat_rows rows_of_def away_row_def home_row_def)

theorem tidy_two_rows_per_game_witness:
  "index_ok season \<and> length (tidy season) = 8 \<and>
   filter (\<lambda>r. game_id r = 2 \<and> date r = Some 16737) (tidy season) =
     [\<lparr>game_id = 2, date = Some 16737, variable = Away_team, team = Some ''CHI''\<rparr>,
      \<lparr>game_id = 2, date = Some 16737, variable = Home_team, team = Some ''DET''\<rparr>]"
proof -
  have ok: "index_ok season" by (simp add: season_def index_ok_def)
  show ?thesis using tidy_two_rows_per_game [OF ok] ok by (simp add: season_def)
qed

section \<open>Days of rest\<close>

text \<open>The \<^verbatim>\<open>rest\<close> column, cut at the two rows of one game.\<close>

lemma length_groupby_diff [simp]: "length (groupby_team_date_diff seen T) = length T"
  by (induction T arbitrary: seen) auto

lemma map2_rest_from:
  "map2 (\<lambda>r x. long_row.extend r \<lparr>rest = map_option (\<lambda>days. days - 1) x\<rparr>) T
     (groupby_team_date_diff seen T) = rest_from seen T"
  by (induction T arbitrary: seen) (auto simp: rest_of_def)

lemma assign_rest_from: "assign_rest T = rest_from [] T"
  by (simp add: assign_rest_def map2_rest_from)

lemma rest_from_append:
  "rest_from seen (xs @ ys) = rest_from seen xs @ rest_from (rev xs @ seen) ys"
  by (induction xs arbitrary: seen) auto

lemma rest_from_game_id:
  "r \<in> set (rest_from seen T) \<Longrightarrow> game_id r \<in> game_id ` set T"
  by (induction T arbitrary: seen) (auto simp: long_row.defs)

lemma game_id_rows: "game_id ` set (concat (map rows_of gs)) = game_id ` set gs"
  by (induction gs) (auto simp: rows_of_def away_row_def home_row_def)

lemma tidy_rest_split:
  assumes "index_ok gs" "k < length gs"
  shows "tidy_rest gs =
           rest_from [] (concat (map rows_of (take k gs))) @
           rest_from (seen_before gs k) (rows_of (gs ! k)) @
           rest_from (rev (rows_of (gs ! k)) @ seen_before gs k) (concat (map rows_of (drop (Suc k) gs)))"
proof -
  have "gs = take k gs @ gs ! k # drop (Suc k) gs"
    using assms(2) by (simp add: id_take_nth_drop)
  then have "concat (map rows_of gs) =
      concat (map rows_of (take k gs)) @ rows_of (gs ! k) @ concat (map rows_of (drop (Suc k) gs))"
    by (metis concat.simps(2) concat_append list.simps(9) map_append)
  then show ?thesis
    by (simp add: tidy_rest_def tidy_rows [OF assms(1)] assign_rest_from rest_from_append seen_before_def)
qed

lemma rest_from_rows_game_id:
  assumes "r \<in> set (rest_from s (concat (map rows_of xs)))"
  shows "game_id r \<in> game_id ` set xs"
proof -
  have "game_id r \<in> game_id ` set (concat (map rows_of xs))"
    using assms by (rule rest_from_game_id)
  then show ?thesis by (simp only: game_id_rows)
qed

lemma filter_other_games:
  assumes "i \<notin> game_id ` set xs"
  shows "filter (\<lambda>r. game_id r = i \<and> Q r) (rest_from s (concat (map rows_of xs))) = []"
proof -
  have "\<forall>r \<in> set (rest_from s (concat (map rows_of xs))). game_id r \<noteq> i"
    using assms rest_from_rows_game_id by blast
  then show ?thesis by (simp add: filter_empty_conv)
qed

lemma rows_of_game:
  assumes "index_ok gs" "k < length gs"
  shows "filter (\<lambda>r. game_id r = game_id (gs ! k) \<and> Q r) (tidy_rest gs) =
         filter (\<lambda>r. game_id r = game_id (gs ! k) \<and> Q r) (rest_from (seen_before gs k) (rows_of (gs ! k)))"
proof -
  have d: "distinct (map game_id gs)" using assms(1) by (rule index_ok_distinct)
  have "gs = take k gs @ gs ! k # drop (Suc k) gs"
    using assms(2) by (simp add: id_take_nth_drop)
  then have "distinct (map game_id (take k gs) @ game_id (gs ! k) # map game_id (drop (Suc k) gs))"
    using d by (metis list.simps(9) map_append)
  then have a: "game_id (gs ! k) \<notin> game_id ` set (take k gs)"
    and b: "game_id (gs ! k) \<notin> game_id ` set (drop (Suc k) gs)"
    by auto
  show ?thesis
    by (simp add: tidy_rest_split [OF assms] filter_other_games [OF a] filter_other_games [OF b])
qed

lemma away_rest_row:
  assumes "index_ok gs" "k < length gs"
  shows "filter (\<lambda>r. game_id r = game_id (gs ! k) \<and> variable r = Away_team) (tidy_rest gs) =
         [long_row.extend (away_row (gs ! k)) \<lparr>rest = rest_of (seen_before gs k) (away_row (gs ! k))\<rparr>]"
  by (simp add: rows_of_game [OF assms] rows_of_def away_row_def home_row_def long_row.defs)

lemma home_rest_row:
  assumes "index_ok gs" "k < length gs"
  shows "filter (\<lambda>r. game_id r = game_id (gs ! k) \<and> variable r = Home_team) (tidy_rest gs) =
         [long_row.extend (home_row (gs ! k))
            \<lparr>rest = rest_of (away_row (gs ! k) # seen_before gs k) (home_row (gs ! k))\<rparr>]"
  by (simp add: rows_of_game [OF assms] rows_of_def away_row_def home_row_def long_row.defs)

text \<open>
  The row one earlier in a team's group belongs to the latest earlier game the team
  played in; there is none when the team has not played before.
\<close>

lemma find_seen_before:
  assumes "j < k" "k \<le> length gs" "plays t (gs ! j)"
    and "\<forall>m. j < m \<and> m < k \<longrightarrow> \<not> plays t (gs ! m)"
  shows "\<exists>s. find (\<lambda>s. team s = Some t) (seen_before gs k) = Some s \<and> date s = date (gs ! j)"
  using assms
proof (induction k)
  case 0
  then show ?case by simp
next
  case (Suc k)
  have k: "k < length gs" using Suc.prems by simp
  have tk: "take (Suc k) gs = take k gs @ [gs ! k]" using k by (simp add: take_Suc_conv_app_nth)
  have sb: "seen_before gs (Suc k) = home_row (gs ! k) # away_row (gs ! k) # seen_before gs k"
    by (simp add: seen_before_def tk rows_of_def)
  show ?case
  proof (cases "j = k")
    case True
    then show ?thesis using Suc.prems(3) by (auto simp: sb home_row_def away_row_def)
  next
    case False
    then have jk: "j < k" using Suc.prems(1) by simp
    then have "\<not> plays t (gs ! k)" using Suc.prems(4) by simp
    moreover have "\<exists>s. find (\<lambda>s. team s = Some t) (seen_before gs k) = Some s \<and> date s = date (gs ! j)"
      using Suc.IH jk k Suc.prems(3,4) by simp
    ultimately show ?thesis by (simp add: sb home_row_def away_row_def)
  qed
qed

lemma find_seen_before_none:
  assumes "k \<le> length gs" "\<forall>j<k. \<not> plays t (gs ! j)"
  shows "find (\<lambda>s. team s = Some t) (seen_before gs k) = None"
  using assms
proof (induction k)
  case 0
  then show ?case by (simp add: seen_before_def)
next
  case (Suc k)
  have k: "k < length gs" using Suc.prems by simp
  have tk: "take (Suc k) gs = take k gs @ [gs ! k]" using k by (simp add: take_Suc_conv_app_nth)
  have sb: "seen_before gs (Suc k) = home_row (gs ! k) # away_row (gs ! k) # seen_before gs k"
    by (simp add: seen_before_def tk rows_of_def)
  show ?case using Suc by (simp add: sb home_row_def away_row_def)
qed

text \<open>
  \<^bold>\<open>Claim C1.\<close> Take a team \<open>t\<close>, a game \<open>k\<close> of \<open>t\<close> and the game \<open>j\<close> of \<open>t\<close> immediately
  before it: \<open>j\<close> comes before \<open>k\<close> in the table, which is in the order of the schedule, and
  \<open>t\<close> plays in no game between the two. Then the rest of the row of \<open>t\<close> for game \<open>k\<close> is
  the number of days from the date of \<open>j\<close> to the date of \<open>k\<close>, minus one. That row is the
  row of game \<open>k\<close> tagged \<^verbatim>\<open>away_team\<close> when \<open>t\<close> is its away team, and the row tagged
  \<^verbatim>\<open>home_team\<close> when \<open>t\<close> is its home team (and not also its away team, whose row would be
  the one before).
\<close>

theorem rest_is_gap_minus_one:
  assumes "index_ok gs" and "k < length gs" and "j < k"
    and "plays t (gs ! j)"
    and "\<forall>m. j < m \<and> m < k \<longrightarrow> \<not> plays t (gs ! m)"
    and "date (gs ! k) = Some d" and "date (gs ! j) = Some d'"
  shows "(away_team (gs ! k) = Some t \<longrightarrow>
            map rest (filter (\<lambda>r. game_id r = game_id (gs ! k) \<and> variable r = Away_team) (tidy_rest gs)) =
              [Some (d - d' - 1)]) \<and>
         (home_team (gs ! k) = Some t \<and> away_team (gs ! k) \<noteq> Some t \<longrightarrow>
            map rest (filter (\<lambda>r. game_id r = game_id (gs ! k) \<and> variable r = Home_team) (tidy_rest gs)) =
              [Some (d - d' - 1)])"
proof -
  obtain s where s: "find (\<lambda>s. team s = Some t) (seen_before gs k) = Some s" "date s = date (gs ! j)"
    using find_seen_before [of j k gs t] assms by auto
  have a: "away_team (gs ! k) = Some t \<Longrightarrow>
      rest_of (seen_before gs k) (away_row (gs ! k)) = Some (d - d' - 1)"
    using s assms(6,7) by (simp add: rest_of_def shift_in_group_def away_row_def date_sub_def)
  have h: "home_team (gs ! k) = Some t \<Longrightarrow> away_team (gs ! k) \<noteq> Some t \<Longrightarrow>
      rest_of (away_row (gs ! k) # seen_before gs k) (home_row (gs ! k)) = Some (d - d' - 1)"
    using s assms(6,7) by (simp add: rest_of_def shift_in_group_def away_row_def home_row_def date_sub_def)
  show ?thesis
    using a h by (simp add: away_rest_row [OF assms(1,2)] home_rest_row [OF assms(1,2)] long_row.defs)
qed

theorem rest_is_gap_minus_one_witness:
  "index_ok season \<and> home_team (season ! 0) = Some ''ATL'' \<and> home_team (season ! 3) = Some ''ATL'' \<and>
   map rest (filter (\<lambda>r. game_id r = 3 \<and> variable r = Home_team) (tidy_rest season)) = [Some 2]"
proof -
  have btw: "\<forall>m. 0 < m \<and> m < 3 \<longrightarrow> \<not> plays ''ATL'' (season ! m)"
    by (simp add: between_0_3 season_nth season_nth_Suc)
  show ?thesis
    using rest_is_gap_minus_one [OF season_ok, of 3 0 "''ATL''" 16738 16735] btw
    by (simp add: season_ok season_length season_nth)
qed

section \<open>The pivoted table\<close>

text \<open>Each group of the pivot holds one row, so its mean is that row's rest.\<close>

lemma mean_single: "mean [x] = map_option of_int x"
  by (cases x) (simp_all add: mean_def List.map_filter_simps)

lemma away_rows_dated:
  assumes "index_ok gs" "k < length gs" "date (gs ! k) = Some d"
  shows "filter (\<lambda>r. game_id r = game_id (gs ! k) \<and> date r = Some d \<and> variable r = Away_team) (tidy_rest gs) =
         [long_row.extend (away_row (gs ! k)) \<lparr>rest = away_rest_at gs k\<rparr>]"
  using assms(3)
  by (simp add: rows_of_game [OF assms(1,2)] rows_of_def away_row_def home_row_def long_row.defs
      away_rest_at_def)

lemma home_rows_dated:
  assumes "index_ok gs" "k < length gs" "date (gs ! k) = Some d"
  shows "filter (\<lambda>r. game_id r = game_id (gs ! k) \<and> date r = Some d \<and> variable r = Home_team) (tidy_rest gs) =
         [long_row.extend (home_row (gs ! k)) \<lparr>rest = home_rest_at gs k\<rparr>]"
  using assms(3)
  by (simp add: rows_of_game [OF assms(1,2)] rows_of_def away_row_def home_row_def long_row.defs
      home_rest_at_def)

lemma group_mean_away:
  assumes "index_ok gs" "k < length gs" "date (gs ! k) = Some d"
  shows "group_mean (tidy_rest gs) (game_id (gs ! k), d) Away_team = map_option of_int (away_rest_at gs k)"
  by (simp add: group_mean_def away_rows_dated [OF assms] mean_single long_row.defs)

lemma group_mean_home:
  assumes "index_ok gs" "k < length gs" "date (gs ! k) = Some d"
  shows "group_mean (tidy_rest gs) (game_id (gs ! k), d) Home_team = map_option of_int (home_rest_at gs k)"
  by (simp add: group_mean_def home_rows_dated [OF assms] mean_single long_row.defs)

text \<open>The long table with its rests, game by game.\<close>

lemma rest_from_game: "rest_from (seen_before gs k) (rows_of (gs ! k)) = rest_rows_of gs k"
  by (simp add: rows_of_def rest_rows_of_def away_rest_at_def home_rest_at_def)

lemma rest_from_prefix:
  "k \<le> length gs \<Longrightarrow>
   rest_from [] (concat (map rows_of (take k gs))) = concat (map (rest_rows_of gs) [0..<k])"
proof (induction k)
  case 0
  then show ?case by simp
next
  case (Suc k)
  then have k: "k < length gs" by simp
  have "take (Suc k) gs = take k gs @ [gs ! k]" using k by (simp add: take_Suc_conv_app_nth)
  then have "concat (map rows_of (take (Suc k) gs)) =
             concat (map rows_of (take k gs)) @ rows_of (gs ! k)"
    by simp
  then have "rest_from [] (concat (map rows_of (take (Suc k) gs))) =
             rest_from [] (concat (map rows_of (take k gs))) @
             rest_from (seen_before gs k) (rows_of (gs ! k))"
    by (simp add: rest_from_append seen_before_def)
  then show ?case using Suc.IH k by (simp add: rest_from_game)
qed

lemma tidy_rest_rows:
  assumes "index_ok gs"
  shows "tidy_rest gs = concat (map (rest_rows_of gs) [0..<length gs])"
  using rest_from_prefix [of "length gs" gs]
  by (simp add: tidy_rest_def tidy_rows [OF assms] assign_rest_from)

lemma in_tidy_rest:
  assumes "index_ok gs"
  shows "r \<in> set (tidy_rest gs) \<longleftrightarrow> (\<exists>k < length gs. r \<in> set (rest_rows_of gs k))"
  by (auto simp: tidy_rest_rows [OF assms])

text \<open>
  The index labels of the pivot are those of the games that have a date and keep a row.
\<close>

lemma set_map_filter_labels:
  "set (List.map_filter (\<lambda>r. map_option (\<lambda>d. (game_id r, d)) (date r)) T) =
   {(i, d). \<exists>r \<in> set T. game_id r = i \<and> date r = Some d}"
  by (induction T) (auto simp: List.map_filter_simps split: option.splits)

lemma kept_row_iff:
  assumes "index_ok gs"
  shows "(\<exists>r \<in> set (tidy_rest gs). game_id r = i \<and> date r = Some d \<and> (p = Keeps_groups \<or> rest r \<noteq> None)) \<longleftrightarrow>
         (\<exists>k < length gs. game_id (gs ! k) = i \<and> date (gs ! k) = Some d \<and> has_row p gs k)"
    (is "?L \<longleftrightarrow> ?R")
proof
  assume ?L
  then obtain r k where k: "k < length gs" and r: "r \<in> set (rest_rows_of gs k)"
    and i: "game_id r = i" and d: "date r = Some d" and h: "p = Keeps_groups \<or> rest r \<noteq> None"
    using in_tidy_rest [OF assms] by blast
  from r have "game_id r = game_id (gs ! k)" "date r = date (gs ! k)"
    "rest r = away_rest_at gs k \<or> rest r = home_rest_at gs k"
    by (auto simp: rest_rows_of_def away_row_def home_row_def long_row.defs)
  then show ?R using k i d h by (intro exI [of _ k]) (auto simp: has_row_def)
next
  assume ?R
  then obtain k where k: "k < length gs" and i: "game_id (gs ! k) = i"
    and d: "date (gs ! k) = Some d" and h: "has_row p gs k" by blast
  let ?a = "long_row.extend (away_row (gs ! k)) \<lparr>rest = away_rest_at gs k\<rparr>"
  let ?h = "long_row.extend (home_row (gs ! k)) \<lparr>rest = home_rest_at gs k\<rparr>"
  have mem: "?a \<in> set (tidy_rest gs)" "?h \<in> set (tidy_rest gs)"
    using k in_tidy_rest [OF assms] by (auto simp: rest_rows_of_def)
  have fa: "game_id ?a = i" "date ?a = Some d" "rest ?a = away_rest_at gs k"
    and fh: "game_id ?h = i" "date ?h = Some d" "rest ?h = home_rest_at gs k"
    using i d by (simp_all add: away_row_def home_row_def long_row.defs)
  show ?L
  proof (cases "p = Keeps_groups \<or> away_rest_at gs k \<noteq> None")
    case True
    then show ?thesis using mem(1) fa by (intro bexI [of _ ?a]) auto
  next
    case False
    then have "home_rest_at gs k \<noteq> None" using h by (simp add: has_row_def)
    then show ?thesis using mem(2) fh by (intro bexI [of _ ?h]) auto
  qed
qed

lemma set_pivot_labels:
  assumes "index_ok gs"
  shows "set (List.map_filter (\<lambda>r. map_option (\<lambda>d. (game_id r, d)) (date r))
           (case p of Keeps_groups \<Rightarrow> tidy_rest gs
            | Drops_groups \<Rightarrow> filter (\<lambda>r. rest r \<noteq> None) (tidy_rest gs))) =
         {(i, d). \<exists>k < length gs. game_id (gs ! k) = i \<and> date (gs ! k) = Some d \<and> has_row p gs k}"
proof -
  have "set (List.map_filter (\<lambda>r. map_option (\<lambda>d. (game_id r, d)) (date r))
           (case p of Keeps_groups \<Rightarrow> tidy_rest gs
            | Drops_groups \<Rightarrow> filter (\<lambda>r. rest r \<noteq> None) (tidy_rest gs))) =
        {(i, d). \<exists>r \<in> set (tidy_rest gs). game_id r = i \<and> date r = Some d \<and>
                   (p = Keeps_groups \<or> rest r \<noteq> None)}"
    by (cases p) (auto simp: set_map_filter_labels)
  then show ?thesis by (simp only: kept_row_iff [OF assms])
qed

lemma set_labels:
  "set (map (label gs) (filter (has_row p gs) (dated gs))) =
   {(i, d). \<exists>k < length gs. game_id (gs ! k) = i \<and> date (gs ! k) = Some d \<and> has_row p gs k}"
proof (rule set_eqI)
  fix x :: "nat \<times> date"
  obtain i d where x: "x = (i, d)" by (cases x)
  have "x \<in> set (map (label gs) (filter (has_row p gs) (dated gs))) \<longleftrightarrow>
        (\<exists>k < length gs. date (gs ! k) \<noteq> None \<and> has_row p gs k \<and> label gs k = (i, d))"
    by (force simp: dated_def x image_iff)
  also have "\<dots> \<longleftrightarrow> (\<exists>k < length gs. game_id (gs ! k) = i \<and> date (gs ! k) = Some d \<and> has_row p gs k)"
    by (auto simp: label_def)
  finally show "x \<in> set (map (label gs) (filter (has_row p gs) (dated gs))) \<longleftrightarrow>
                x \<in> {(i, d). \<exists>k < length gs. game_id (gs ! k) = i \<and> date (gs ! k) = Some d \<and> has_row p gs k}"
    by (simp add: x)
qed

lemma sorted_wrt_labels:
  assumes "index_ok gs"
  shows "sorted_wrt (<) (map (label gs) (filter (has_row p gs) (dated gs)))"
proof -
  have "sorted_wrt (<) [0..<length gs]" by simp
  then have "sorted_wrt (<) (dated gs)" unfolding dated_def by (rule sorted_wrt_filter)
  then have srt: "sorted_wrt (<) (filter (has_row p gs) (dated gs))" by (rule sorted_wrt_filter)
  have "sorted_wrt (\<lambda>a b. label gs a < label gs b) (filter (has_row p gs) (dated gs))"
  proof (rule sorted_wrt_mono_rel [OF _ srt])
    fix a b
    assume "a \<in> set (filter (has_row p gs) (dated gs))" "b \<in> set (filter (has_row p gs) (dated gs))"
      "a < b"
    then have "a < b" "b < length gs" by (simp_all add: dated_def)
    then have "game_id (gs ! a) < game_id (gs ! b)" by (rule game_id_less [OF assms])
    then show "label gs a < label gs b" by (simp add: label_def less_prod_def)
  qed
  then show ?thesis by (simp add: sorted_wrt_map)
qed

lemma pivot_index_labels:
  assumes "index_ok gs"
  shows "pivot_index p (tidy_rest gs) = map (label gs) (filter (has_row p gs) (dated gs))"
proof -
  let ?L = "map (label gs) (filter (has_row p gs) (dated gs))"
  let ?K = "List.map_filter (\<lambda>r. map_option (\<lambda>d. (game_id r, d)) (date r))
           (case p of Keeps_groups \<Rightarrow> tidy_rest gs
            | Drops_groups \<Rightarrow> filter (\<lambda>r. rest r \<noteq> None) (tidy_rest gs))"
  have s: "sorted ?L" and d: "distinct ?L"
    using sorted_wrt_labels [OF assms] strict_sorted_iff by blast+
  have "pivot_index p (tidy_rest gs) = sorted_list_of_set (set ?K)"
    by (simp add: pivot_index_def sorted_list_of_set_sort_remdups)
  also have "set ?K = set ?L"
    by (simp only: set_pivot_labels [OF assms] set_labels)
  also have "sorted_list_of_set (set ?L) = ?L"
    using s d by (rule sorted_list_of_set.idem_if_sorted_distinct)
  finally show ?thesis .
qed

lemma by_game_rows:
  assumes "index_ok gs"
  shows "by_game p gs = map (pivot_row gs) (filter (has_row p gs) (dated gs))"
proof -
  have "\<And>k. k \<in> set (dated gs) \<Longrightarrow>
      \<lparr>game_id = fst (label gs k), date = Some (snd (label gs k)),
       by_game_row.away_rest = group_mean (tidy_rest gs) (label gs k) Away_team,
       by_game_row.home_rest = group_mean (tidy_rest gs) (label gs k) Home_team\<rparr> = pivot_row gs k"
  proof -
    fix k assume "k \<in> set (dated gs)"
    then obtain d where k: "k < length gs" "date (gs ! k) = Some d" by (auto simp: dated_def)
    show "\<lparr>game_id = fst (label gs k), date = Some (snd (label gs k)),
       by_game_row.away_rest = group_mean (tidy_rest gs) (label gs k) Away_team,
       by_game_row.home_rest = group_mean (tidy_rest gs) (label gs k) Home_team\<rparr> = pivot_row gs k"
      using k by (simp add: label_def pivot_row_def group_mean_away [OF assms k] group_mean_home [OF assms k])
  qed
  then show ?thesis
    by (simp add: by_game_def pivot_table_def pivot_index_labels [OF assms])
qed

lemma in_by_game:
  assumes "index_ok gs"
  shows "b \<in> set (by_game p gs) \<longleftrightarrow>
         (\<exists>k < length gs. date (gs ! k) \<noteq> None \<and> has_row p gs k \<and> b = pivot_row gs k)"
  by (auto simp: by_game_rows [OF assms] dated_def)

lemma pivot_row_fields:
  "game_id (pivot_row gs k) = game_id (gs ! k)"
  "date (pivot_row gs k) = date (gs ! k)"
  "by_game_row.away_rest (pivot_row gs k) = map_option of_int (away_rest_at gs k)"
  "by_game_row.home_rest (pivot_row gs k) = map_option of_int (home_rest_at gs k)"
  by (simp_all add: pivot_row_def)

lemma has_row_iff:
  assumes "index_ok gs" "k < length gs"
  shows "has_row p gs k \<longleftrightarrow>
         p = Keeps_groups \<or> (\<exists>r \<in> set (tidy_rest gs). game_id r = game_id (gs ! k) \<and> rest r \<noteq> None)"
proof -
  have "(\<exists>r \<in> set (tidy_rest gs). game_id r = game_id (gs ! k) \<and> rest r \<noteq> None) \<longleftrightarrow>
        (\<exists>r \<in> set (filter (\<lambda>r. game_id r = game_id (gs ! k) \<and> rest r \<noteq> None) (tidy_rest gs)). True)"
    by auto
  also have "\<dots> \<longleftrightarrow> away_rest_at gs k \<noteq> None \<or> home_rest_at gs k \<noteq> None"
    by (auto simp: rows_of_game [OF assms] rest_from_game rest_rows_of_def away_row_def home_row_def
        long_row.defs)
  finally show ?thesis by (auto simp: has_row_def)
qed

lemma sorted_by_game:
  assumes "index_ok gs"
  shows "sorted_wrt (<) (map game_id (by_game p gs))"
proof -
  have "sorted_wrt (<) [0..<length gs]" by simp
  then have "sorted_wrt (<) (dated gs)" unfolding dated_def by (rule sorted_wrt_filter)
  then have srt: "sorted_wrt (<) (filter (has_row p gs) (dated gs))" by (rule sorted_wrt_filter)
  have "sorted_wrt (\<lambda>a b. game_id (pivot_row gs a) < game_id (pivot_row gs b))
          (filter (has_row p gs) (dated gs))"
  proof (rule sorted_wrt_mono_rel [OF _ srt])
    fix a b
    assume "a \<in> set (filter (has_row p gs) (dated gs))" "b \<in> set (filter (has_row p gs) (dated gs))"
      "a < b"
    then have "a < b" "b < length gs" by (simp_all add: dated_def)
    then have "game_id (gs ! a) < game_id (gs ! b)" by (rule game_id_less [OF assms])
    then show "game_id (pivot_row gs a) < game_id (pivot_row gs b)" by (simp add: pivot_row_fields)
  qed
  then show ?thesis by (simp add: by_game_rows [OF assms] sorted_wrt_map comp_def)
qed

text \<open>The rests of the example season.\<close>

lemma season_rests:
  "map (away_rest_at season) [0, 1, 2, 3] = [None, None, Some 1, Some 0]"
  "map (home_rest_at season) [0, 1, 2, 3] = [None, None, Some 1, Some 2]"
  by (simp_all add: away_rest_at_def home_rest_at_def seen_before_def rows_of_def rest_of_def
      shift_in_group_def date_sub_def away_row_def home_row_def season_def)

lemma season_upt: "[0..<length season] = [0, 1, 2, 3]"
  by (simp add: season_length upt_rec)

lemma season_has_row:
  "filter (has_row Drops_groups season) (dated season) = [2, 3]"
  "filter (has_row Keeps_groups season) (dated season) = [0, 1, 2, 3]"
  using season_rests by (simp_all add: dated_def season_upt has_row_def season_nth season_nth_Suc)

lemma tidy_rest_season:
  "tidy_rest season =
     [\<lparr>game_id = 0, date = Some 16735, variable = Away_team, team = Some ''DET'', rest = None\<rparr>,
      \<lparr>game_id = 0, date = Some 16735, variable = Home_team, team = Some ''ATL'', rest = None\<rparr>,
      \<lparr>game_id = 1, date = Some 16735, variable = Away_team, team = Some ''CLE'', rest = None\<rparr>,
      \<lparr>game_id = 1, date = Some 16735, variable = Home_team, team = Some ''CHI'', rest = None\<rparr>,
      \<lparr>game_id = 2, date = Some 16737, variable = Away_team, team = Some ''CHI'', rest = Some 1\<rparr>,
      \<lparr>game_id = 2, date = Some 16737, variable = Home_team, team = Some ''DET'', rest = Some 1\<rparr>,
      \<lparr>game_id = 3, date = Some 16738, variable = Away_team, team = Some ''DET'', rest = Some 0\<rparr>,
      \<lparr>game_id = 3, date = Some 16738, variable = Home_team, team = Some ''ATL'', rest = Some 2\<rparr>]"
  using season_rests
  by (simp add: tidy_rest_rows [OF season_ok] season_upt rest_rows_of_def away_row_def home_row_def
      long_row.defs season_nth season_nth_Suc)

text \<open>
  \<^bold>\<open>Claim C3.\<close> Melting the games and pivoting the rests over \<^verbatim>\<open>(game_id, date)\<close> against
  the tag gives at most one row per game, with rows in game order, and each row belongs to
  a game: it carries the game's index, and its \<^verbatim>\<open>away_rest\<close> and \<^verbatim>\<open>home_rest\<close> are the
  rests of the game's away row and home row in \<^verbatim>\<open>tidy\<close>. A game has a row when it has a
  date and, where \<^verbatim>\<open>pivot_table\<close> drops the groups without a value, at least one of its
  two rests is there. So \<^verbatim>\<open>by_game\<close> has exactly one row per game where \<^verbatim>\<open>pivot_table\<close>
  keeps every group and every game has a date.
\<close>

theorem pivot_rows_of_games:
  assumes "index_ok gs"
  shows "sorted_wrt (<) (map game_id (by_game p gs)) \<and>
         (\<forall>b \<in> set (by_game p gs). \<exists>k < length gs.
            game_id b = game_id (gs ! k) \<and> date b = date (gs ! k) \<and>
            map (\<lambda>r. map_option rat_of_int (rest r))
              (filter (\<lambda>r. game_id r = game_id (gs ! k) \<and> variable r = Away_team) (tidy_rest gs)) =
              [by_game_row.away_rest b] \<and>
            map (\<lambda>r. map_option rat_of_int (rest r))
              (filter (\<lambda>r. game_id r = game_id (gs ! k) \<and> variable r = Home_team) (tidy_rest gs)) =
              [by_game_row.home_rest b]) \<and>
         (\<forall>k < length gs.
            (\<exists>b \<in> set (by_game p gs). game_id b = game_id (gs ! k)) \<longleftrightarrow>
            date (gs ! k) \<noteq> None \<and>
            (p = Keeps_groups \<or>
             (\<exists>r \<in> set (tidy_rest gs). game_id r = game_id (gs ! k) \<and> rest r \<noteq> None))) \<and>
         (p = Keeps_groups \<and> (\<forall>g \<in> set gs. date g \<noteq> None) \<longrightarrow>
            length (by_game p gs) = length gs)"
proof -
  have 1: "sorted_wrt (<) (map game_id (by_game p gs))" by (rule sorted_by_game [OF assms])
  have 2: "\<forall>b \<in> set (by_game p gs). \<exists>k < length gs.
            game_id b = game_id (gs ! k) \<and> date b = date (gs ! k) \<and>
            map (\<lambda>r. map_option rat_of_int (rest r))
              (filter (\<lambda>r. game_id r = game_id (gs ! k) \<and> variable r = Away_team) (tidy_rest gs)) =
              [by_game_row.away_rest b] \<and>
            map (\<lambda>r. map_option rat_of_int (rest r))
              (filter (\<lambda>r. game_id r = game_id (gs ! k) \<and> variable r = Home_team) (tidy_rest gs)) =
              [by_game_row.home_rest b]"
  proof
    fix b assume "b \<in> set (by_game p gs)"
    then obtain k where k: "k < length gs" and b: "b = pivot_row gs k"
      using in_by_game [OF assms] by blast
    have "game_id b = game_id (gs ! k) \<and> date b = date (gs ! k) \<and>
            map (\<lambda>r. map_option rat_of_int (rest r))
              (filter (\<lambda>r. game_id r = game_id (gs ! k) \<and> variable r = Away_team) (tidy_rest gs)) =
              [by_game_row.away_rest b] \<and>
            map (\<lambda>r. map_option rat_of_int (rest r))
              (filter (\<lambda>r. game_id r = game_id (gs ! k) \<and> variable r = Home_team) (tidy_rest gs)) =
              [by_game_row.home_rest b]"
      by (simp add: b pivot_row_fields away_rest_row [OF assms k] home_rest_row [OF assms k]
          long_row.defs away_rest_at_def home_rest_at_def)
    with k have "k < length gs \<and>
           (game_id b = game_id (gs ! k) \<and> date b = date (gs ! k) \<and>
            map (\<lambda>r. map_option rat_of_int (rest r))
              (filter (\<lambda>r. game_id r = game_id (gs ! k) \<and> variable r = Away_team) (tidy_rest gs)) =
              [by_game_row.away_rest b] \<and>
            map (\<lambda>r. map_option rat_of_int (rest r))
              (filter (\<lambda>r. game_id r = game_id (gs ! k) \<and> variable r = Home_team) (tidy_rest gs)) =
              [by_game_row.home_rest b])"
      by (rule conjI)
    then show "\<exists>k < length gs.
            game_id b = game_id (gs ! k) \<and> date b = date (gs ! k) \<and>
            map (\<lambda>r. map_option rat_of_int (rest r))
              (filter (\<lambda>r. game_id r = game_id (gs ! k) \<and> variable r = Away_team) (tidy_rest gs)) =
              [by_game_row.away_rest b] \<and>
            map (\<lambda>r. map_option rat_of_int (rest r))
              (filter (\<lambda>r. game_id r = game_id (gs ! k) \<and> variable r = Home_team) (tidy_rest gs)) =
              [by_game_row.home_rest b]"
      by (rule exI)
  qed
  have 3: "\<forall>k < length gs.
            (\<exists>b \<in> set (by_game p gs). game_id b = game_id (gs ! k)) \<longleftrightarrow>
            date (gs ! k) \<noteq> None \<and>
            (p = Keeps_groups \<or>
             (\<exists>r \<in> set (tidy_rest gs). game_id r = game_id (gs ! k) \<and> rest r \<noteq> None))"
  proof (intro allI impI)
    fix k assume k: "k < length gs"
    have "(\<exists>b \<in> set (by_game p gs). game_id b = game_id (gs ! k)) \<longleftrightarrow>
          date (gs ! k) \<noteq> None \<and> has_row p gs k"
    proof
      assume "\<exists>b \<in> set (by_game p gs). game_id b = game_id (gs ! k)"
      then obtain b where b: "b \<in> set (by_game p gs)" and id: "game_id b = game_id (gs ! k)" ..
      from b obtain m where m: "m < length gs" "date (gs ! m) \<noteq> None" "has_row p gs m"
        and bm: "b = pivot_row gs m"
        using in_by_game [OF assms] by blast
      have "game_id (gs ! m) = game_id (gs ! k)" using id by (simp add: bm pivot_row_fields)
      then have "m = k" by (rule game_id_inj [OF assms m(1) k])
      then show "date (gs ! k) \<noteq> None \<and> has_row p gs k" using m by simp
    next
      assume "date (gs ! k) \<noteq> None \<and> has_row p gs k"
      then have "pivot_row gs k \<in> set (by_game p gs)" using in_by_game [OF assms] k by blast
      moreover have "game_id (pivot_row gs k) = game_id (gs ! k)" by (simp add: pivot_row_fields)
      ultimately show "\<exists>b \<in> set (by_game p gs). game_id b = game_id (gs ! k)" ..
    qed
    then show "(\<exists>b \<in> set (by_game p gs). game_id b = game_id (gs ! k)) \<longleftrightarrow>
            date (gs ! k) \<noteq> None \<and>
            (p = Keeps_groups \<or>
             (\<exists>r \<in> set (tidy_rest gs). game_id r = game_id (gs ! k) \<and> rest r \<noteq> None))"
      by (simp only: has_row_iff [OF assms k])
  qed
  have 4: "p = Keeps_groups \<and> (\<forall>g \<in> set gs. date g \<noteq> None) \<longrightarrow>
            length (by_game p gs) = length gs"
  proof
    assume a: "p = Keeps_groups \<and> (\<forall>g \<in> set gs. date g \<noteq> None)"
    then have "dated gs = [0..<length gs]" by (simp add: dated_def)
    moreover have "filter (has_row p gs) xs = xs" for xs using a by (simp add: has_row_def)
    ultimately show "length (by_game p gs) = length gs" by (simp add: by_game_rows [OF assms])
  qed
  show ?thesis by (rule conjI [OF 1 conjI [OF 2 conjI [OF 3 4]]])
qed

theorem pivot_rows_of_games_witness:
  "index_ok season \<and>
   sorted_wrt (<) (map game_id (by_game Drops_groups season)) \<and>
   (\<exists>b \<in> set (by_game Drops_groups season). game_id b = 3) \<and>
   \<not> (\<exists>b \<in> set (by_game Drops_groups season). game_id b = 0) \<and>
   length (by_game Keeps_groups season) = 4"
proof -
  have k: "3 < length season" "0 < length season" by (simp_all add: season_length)
  have d: "\<forall>g \<in> set season. date g \<noteq> None" by (simp add: season_def)
  note drops = pivot_rows_of_games [OF season_ok, of Drops_groups]
  note keeps = pivot_rows_of_games [OF season_ok, of Keeps_groups]
  have 1: "sorted_wrt (<) (map game_id (by_game Drops_groups season))"
    using drops by (rule conjunct1)
  have 3: "(\<exists>b \<in> set (by_game Drops_groups season). game_id b = 3)"
    using drops [THEN conjunct2, THEN conjunct2, THEN conjunct1, rule_format, OF k(1)]
    by (simp add: season_nth tidy_rest_season)
  have 0: "\<not> (\<exists>b \<in> set (by_game Drops_groups season). game_id b = 0)"
    using drops [THEN conjunct2, THEN conjunct2, THEN conjunct1, rule_format, OF k(2)]
    by (simp add: season_nth tidy_rest_season)
  have 4: "length (by_game Keeps_groups season) = 4"
    using keeps [THEN conjunct2, THEN conjunct2, THEN conjunct2] d by (simp add: season_length)
  show ?thesis using season_ok 1 3 0 4 by simp
qed

text \<open>
  The claim as it was made, with exactly one row per game, fails where \<^verbatim>\<open>pivot_table\<close>
  drops the groups without a value: the example season has four games, and its two opening
  games, in which no team has played before, have no row in \<^verbatim>\<open>by_game\<close>.
\<close>

theorem pivot_not_one_row_per_game:
  "length season = 4 \<and> map game_id (by_game Drops_groups season) = [2, 3]"
  by (simp add: season_length by_game_rows [OF season_ok] season_has_row pivot_row_fields season_nth)

section \<open>The joined table\<close>

text \<open>
  Every label of \<^verbatim>\<open>by_game\<close> is the label of a game, so the join adds no row; each game
  finds its own row of \<^verbatim>\<open>by_game\<close> if it has one, and a game without a row has no rest
  to lose.
\<close>

lemma find_pivot_row:
  assumes "index_ok gs" "k < length gs"
  shows "find (same_index (gs ! k)) (by_game p gs) =
           (if date (gs ! k) \<noteq> None \<and> has_row p gs k then Some (pivot_row gs k) else None)"
proof (cases "date (gs ! k) \<noteq> None \<and> has_row p gs k")
  case False
  have "\<forall>m \<in> set (filter (has_row p gs) (dated gs)). \<not> same_index (gs ! k) (pivot_row gs m)"
  proof
    fix m assume m: "m \<in> set (filter (has_row p gs) (dated gs))"
    then have "m < length gs" "date (gs ! m) \<noteq> None" "has_row p gs m" by (simp_all add: dated_def)
    then have "m \<noteq> k" using False by blast
    then have "game_id (gs ! k) \<noteq> game_id (gs ! m)"
      using game_id_inj [OF assms(1) assms(2) \<open>m < length gs\<close>] by blast
    then show "\<not> same_index (gs ! k) (pivot_row gs m)"
      by (simp add: same_index_def pivot_row_fields)
  qed
  then have "find (same_index (gs ! k)) (by_game p gs) = None"
    by (simp add: by_game_rows [OF assms(1)] find_None_iff)
  then show ?thesis unfolding if_not_P [OF False] .
next
  case True
  then have k: "k \<in> set (filter (has_row p gs) (dated gs))" using assms(2) by (simp add: dated_def)
  have "m \<in> set (filter (has_row p gs) (dated gs)) \<Longrightarrow>
        same_index (gs ! k) (pivot_row gs m) \<longleftrightarrow> m = k" for m
    using game_id_inj [OF assms(1), of k m] assms(2)
    by (auto simp: dated_def same_index_def pivot_row_fields)
  then have "find (\<lambda>m. same_index (gs ! k) (pivot_row gs m)) (filter (has_row p gs) (dated gs)) = Some k"
    using k by (intro find_unique) auto
  then have "find (same_index (gs ! k)) (by_game p gs) = Some (pivot_row gs k)"
    by (simp add: by_game_rows [OF assms(1)] find_map_option)
  then show ?thesis unfolding if_P [OF True] .
qed

lemma no_rest_only_rows:
  assumes "index_ok gs"
  shows "filter (\<lambda>b. \<not> list_ex (\<lambda>g. same_index g b) gs) (by_game p gs) = []"
proof -
  have "list_ex (\<lambda>g. same_index g b) gs" if "b \<in> set (by_game p gs)" for b
  proof -
    from that have "\<exists>k < length gs. date (gs ! k) \<noteq> None \<and> has_row p gs k \<and> b = pivot_row gs k"
      by (simp only: in_by_game [OF assms])
    then obtain m where "m < length gs" "b = pivot_row gs m" by auto
    then have "gs ! m \<in> set gs" "same_index (gs ! m) b"
      by (simp_all add: same_index_def pivot_row_fields)
    then show ?thesis unfolding list_ex_iff by (rule bexI [rotated])
  qed
  then show ?thesis by (simp add: filter_empty_conv)
qed

lemma join_rest_no_row:
  assumes "\<not> has_row p gs k"
  shows "join_rest g None = join_rest g (Some (pivot_row gs k))"
  using assms by (simp add: join_rest_def has_row_def pivot_row_fields)

lemma join_found:
  assumes "index_ok gs" "k < length gs"
  shows "join_rest (gs ! k) (find (same_index (gs ! k)) (by_game p gs)) = df_row_at gs k"
proof (cases "date (gs ! k) \<noteq> None \<and> has_row p gs k")
  case True
  then have "find (same_index (gs ! k)) (by_game p gs) = Some (pivot_row gs k)"
    unfolding find_pivot_row [OF assms] by (rule if_P)
  moreover have "date (gs ! k) \<noteq> None" using True by (rule conjunct1)
  ultimately show ?thesis by (auto simp: df_row_at_def)
next
  case False
  then have f: "find (same_index (gs ! k)) (by_game p gs) = None"
    unfolding find_pivot_row [OF assms] by (rule if_not_P)
  show ?thesis
  proof (cases "date (gs ! k) = None")
    case True
    then show ?thesis by (simp add: f df_row_at_def)
  next
    case dated: False
    then have "\<not> has_row p gs k" using False by simp
    then have "join_rest (gs ! k) None = join_rest (gs ! k) (Some (pivot_row gs k))"
      by (rule join_rest_no_row)
    then show ?thesis using dated by (simp add: f df_row_at_def)
  qed
qed

lemma df_rows:
  assumes "index_ok gs"
  shows "df p gs = map (df_row_at gs) [0..<length gs]"
proof -
  have "map (\<lambda>g. join_rest g (find (same_index g) (by_game p gs))) gs =
        map (\<lambda>k. join_rest (gs ! k) (find (same_index (gs ! k)) (by_game p gs))) [0..<length gs]"
    by (simp add: map_equality_iff)
  also have "\<dots> = map (df_row_at gs) [0..<length gs]"
    by (rule map_cong) (simp_all add: join_found [OF assms])
  finally show ?thesis
    by (simp add: df_def concat_columns_def no_rest_only_rows [OF assms])
qed

lemma df_nth:
  assumes "index_ok gs" "k < length gs"
  shows "df p gs ! k = df_row_at gs k"
  using assms(2) by (simp add: df_rows [OF assms(1)])

lemma length_df: "index_ok gs \<Longrightarrow> length (df p gs) = length gs"
  by (simp add: df_rows)

lemma df_row_at_fields:
  "game_id (df_row_at gs k) = game_id (gs ! k)"
  "date (df_row_at gs k) = date (gs ! k)"
  "away_rest (df_row_at gs k) =
     (if date (gs ! k) = None then None else map_option of_int (away_rest_at gs k))"
  "home_rest (df_row_at gs k) =
     (if date (gs ! k) = None then None else map_option of_int (home_rest_at gs k))"
  by (simp_all add: df_row_at_def join_rest_def game.defs pivot_row_def)

lemma df_row_of_game_id:
  assumes "index_ok gs" "k < length gs" "r \<in> set (df p gs)" "game_id r = game_id (gs ! k)"
  shows "r = df p gs ! k"
proof -
  obtain m where m: "m < length gs" "r = df_row_at gs m"
    using assms(3) by (auto simp: df_rows [OF assms(1)])
  then have "game_id (gs ! m) = game_id (gs ! k)" using assms(4) by (simp add: df_row_at_fields)
  then have "m = k" using game_id_inj [OF assms(1) m(1) assms(2)] by simp
  then show ?thesis using m assms(2) by (simp add: df_nth [OF assms(1)])
qed

text \<open>
  \<^bold>\<open>Claim C8.\<close> Joining the pivoted rests onto the games only adds the two rest columns:
  \<^verbatim>\<open>df\<close> has as many rows as \<^verbatim>\<open>games\<close>, and row for row the same index, teams and
  points.
\<close>

theorem concat_keeps_games:
  assumes "index_ok gs"
  shows "length (df p gs) = length gs \<and>
         (\<forall>k < length gs.
            game_id (df p gs ! k) = game_id (gs ! k) \<and> date (df p gs ! k) = date (gs ! k) \<and>
            away_team (df p gs ! k) = away_team (gs ! k) \<and>
            away_points (df p gs ! k) = away_points (gs ! k) \<and>
            home_team (df p gs ! k) = home_team (gs ! k) \<and>
            home_points (df p gs ! k) = home_points (gs ! k))"
  by (simp add: length_df [OF assms] df_nth [OF assms] df_row_at_def join_rest_def game.defs)

theorem concat_keeps_games_witness:
  "index_ok season \<and> length (df Drops_groups season) = 4 \<and> game_id (df Drops_groups season ! 1) = 1 \<and>
   date (df Drops_groups season ! 1) = Some 16735 \<and>
   away_team (df Drops_groups season ! 1) = Some ''CLE'' \<and> away_points (df Drops_groups season ! 1) = Some 95 \<and>
   home_team (df Drops_groups season ! 1) = Some ''CHI'' \<and> home_points (df Drops_groups season ! 1) = Some 97"
proof -
  have k: "1 < length season" by (simp add: season_length)
  show ?thesis
    using concat_keeps_games [OF season_ok, THEN conjunct1]
      concat_keeps_games [OF season_ok, THEN conjunct2, rule_format, OF k]
    by (simp add: season_ok season_length season_nth_Suc)
qed

section \<open>A team's first game\<close>

lemma away_rest_at_first:
  assumes "k < length gs" "away_team (gs ! k) = Some t" "\<forall>j<k. \<not> plays t (gs ! j)"
  shows "away_rest_at gs k = None"
  using find_seen_before_none [of k gs t] assms
  by (simp add: away_rest_at_def rest_of_def shift_in_group_def away_row_def)

lemma home_rest_at_first:
  assumes "k < length gs" "home_team (gs ! k) = Some t" "away_team (gs ! k) \<noteq> Some t"
    "\<forall>j<k. \<not> plays t (gs ! j)"
  shows "home_rest_at gs k = None"
  using find_seen_before_none [of k gs t] assms
  by (simp add: home_rest_at_def rest_of_def shift_in_group_def away_row_def home_row_def)

lemma delta_keys:
  assumes "delta cols fr = Inr ds"
  shows "x \<in> fst ` set ds \<longleftrightarrow>
         (\<exists>r \<in> set fr. x = (game_id r, date r) \<and> home_rest r \<noteq> None \<and> away_rest r \<noteq> None)"
proof -
  have "x \<in> fst ` set (List.map_filter
             (\<lambda>r. case (home_rest r, away_rest r) of
                    (Some h, Some a) \<Rightarrow> Some ((game_id r, date r), astype_int (h - a))
                  | _ \<Rightarrow> None)
             fr) \<longleftrightarrow>
         (\<exists>r \<in> set fr. x = (game_id r, date r) \<and> home_rest r \<noteq> None \<and> away_rest r \<noteq> None)"
    by (induction fr) (auto simp: List.map_filter_simps split: option.splits)
  then show ?thesis using assms by (simp add: delta_def split: if_splits)
qed

lemma delta_returns:
  "''home_rest'' \<in> set cols \<Longrightarrow> ''away_rest'' \<in> set cols \<Longrightarrow> \<exists>ds. delta cols fr = Inr ds"
  by (simp add: delta_def)

text \<open>When the joined table has a rest column.\<close>

lemma by_game_has_column:
  "rename_columns v \<in> set (by_game_columns p gs) \<longleftrightarrow>
   (\<exists>r \<in> set (tidy_rest gs). variable r = v \<and> date r \<noteq> None \<and> (p = Keeps_groups \<or> rest r \<noteq> None))"
proof -
  have inj: "rename_columns a = rename_columns b \<longleftrightarrow> a = b" for a b
    by (cases a; cases b) (simp_all add: rename_columns_def)
  have "rename_columns v \<in> set (by_game_columns p gs) \<longleftrightarrow> v \<in> set (pivot_columns p (tidy_rest gs))"
    by (auto simp: by_game_columns_def inj)
  also have "\<dots> \<longleftrightarrow>
      (\<exists>r \<in> set (tidy_rest gs). variable r = v \<and> date r \<noteq> None \<and> (p = Keeps_groups \<or> rest r \<noteq> None))"
    by (cases p; cases v) (auto simp: pivot_columns_def list_ex_iff)
  finally show ?thesis .
qed

lemma df_has_column:
  "''away_rest'' \<in> set (df_columns p gs) \<longleftrightarrow> rename_columns Away_team \<in> set (by_game_columns p gs)"
  "''home_rest'' \<in> set (df_columns p gs) \<longleftrightarrow> rename_columns Home_team \<in> set (by_game_columns p gs)"
  by (simp_all add: df_columns_def rename_columns_def)

lemma df_home_win_has_column:
  "''away_rest'' \<in> set (df_home_win_columns p gs) \<longleftrightarrow> ''away_rest'' \<in> set (df_columns p gs)"
  "''home_rest'' \<in> set (df_home_win_columns p gs) \<longleftrightarrow> ''home_rest'' \<in> set (df_columns p gs)"
  by (simp_all add: df_home_win_columns_def)

lemma df_home_win_nth:
  assumes "index_ok gs" "k < length gs"
  shows "df_home_win p gs ! k =
         df_row.extend (df p gs ! k) \<lparr>home_win = points_gt (home_points (gs ! k)) (away_points (gs ! k))\<rparr>"
  using assms(2)
  by (simp add: df_home_win_def assign_home_win_def length_df [OF assms(1)] df_nth [OF assms]
      df_row_at_def join_rest_def game.defs)

text \<open>The rest columns of the example season, and of its first game alone.\<close>

lemma season_columns:
  "df_columns Drops_groups season =
     [''away_team'', ''away_points'', ''home_team'', ''home_points'', ''away_rest'', ''home_rest'']"
  by (simp add: df_columns_def by_game_columns_def pivot_columns_def rename_columns_def tidy_rest_season)

lemma opening_night:
  "opening_night =
     [\<lparr>game_id = 0, date = Some 16735, away_team = Some ''DET'', away_points = Some 106,
        home_team = Some ''ATL'', home_points = Some 94\<rparr>]"
  by (simp add: opening_night_def season_def)

lemma opening_night_columns:
  "df_columns Drops_groups opening_night = [''away_team'', ''away_points'', ''home_team'', ''home_points'']"
proof -
  have ok: "index_ok opening_night" by (simp add: opening_night index_ok_def)
  have "tidy_rest opening_night =
     [\<lparr>game_id = 0, date = Some 16735, variable = Away_team, team = Some ''DET'', rest = None\<rparr>,
      \<lparr>game_id = 0, date = Some 16735, variable = Home_team, team = Some ''ATL'', rest = None\<rparr>]"
    unfolding tidy_rest_rows [OF ok]
    by (simp add: opening_night rest_rows_of_def away_row_def home_row_def
        long_row.defs away_rest_at_def home_rest_at_def seen_before_def rest_of_def shift_in_group_def
        date_sub_def)
  then show ?thesis
    by (simp add: df_columns_def by_game_columns_def pivot_columns_def rename_columns_def)
qed

lemma complete_cases_rows:
  assumes "complete_cases cols hs as (df_home_win p gs) = Inr cs" "r \<in> set cs"
  shows "\<exists>q \<in> set (df p gs). game_id q = game_id r \<and> away_rest q = away_rest r \<and> home_rest q = home_rest r
          \<and> away_rest r \<noteq> None \<and> home_rest r \<noteq> None"
proof -
  have "cs = filter (\<lambda>r. hs r \<noteq> None \<and> as r \<noteq> None \<and> home_rest r \<noteq> None \<and> away_rest r \<noteq> None)
               (df_home_win p gs)"
    using assms(1) by (simp add: complete_cases_def split: if_splits)
  then have "r \<in> set (filter (\<lambda>r. hs r \<noteq> None \<and> as r \<noteq> None \<and> home_rest r \<noteq> None \<and> away_rest r \<noteq> None)
               (df_home_win p gs))"
    using assms(2) by simp
  then show ?thesis by (auto simp: df_home_win_def assign_home_win_def df_row.defs)
qed

text \<open>
  \<^bold>\<open>Claim C10.\<close> Let game \<open>k\<close> be the first game of team \<open>t\<close>. The rest of the row of \<open>t\<close>
  for that game is missing, not zero. So the game has a missing \<^verbatim>\<open>away_rest\<close> or
  \<^verbatim>\<open>home_rest\<close> in the per-game tables, in its row of \<^verbatim>\<open>by_game\<close> if it has one and in
  its row of \<^verbatim>\<open>df\<close>.

  The joined table has a rest column when the pivot has a group left for that tag. If
  \<^verbatim>\<open>home_rest\<close>, or else \<^verbatim>\<open>away_rest\<close>, is not there, \<^verbatim>\<open>delta\<close> raises \<^verbatim>\<open>KeyError\<close> with
  that label. Otherwise \<^verbatim>\<open>delta\<close> returns, the game is not among its labels, and its labels
  are just the games with both rests. Likewise the model formula raises if a rest column
  is not there, and otherwise the game is not among the complete cases the model is
  fitted on, whatever the strength columns hold.
\<close>

theorem first_game_rest_missing:
  assumes "index_ok gs" and "k < length gs"
    and "plays t (gs ! k)"
    and "\<forall>j<k. \<not> plays t (gs ! j)"
  shows "(away_team (gs ! k) = Some t \<longrightarrow>
            map rest (filter (\<lambda>r. game_id r = game_id (gs ! k) \<and> variable r = Away_team) (tidy_rest gs)) =
              [None]) \<and>
         (home_team (gs ! k) = Some t \<and> away_team (gs ! k) \<noteq> Some t \<longrightarrow>
            map rest (filter (\<lambda>r. game_id r = game_id (gs ! k) \<and> variable r = Home_team) (tidy_rest gs)) =
              [None]) \<and>
         (\<forall>b \<in> set (by_game p gs).
            game_id b = game_id (gs ! k) \<longrightarrow>
            by_game_row.away_rest b = None \<or> by_game_row.home_rest b = None) \<and>
         game_id (df p gs ! k) = game_id (gs ! k) \<and>
         (away_rest (df p gs ! k) = None \<or> home_rest (df p gs ! k) = None) \<and>
         (''away_rest'' \<in> set (df_columns p gs) \<longleftrightarrow>
            (\<exists>r \<in> set (tidy_rest gs). variable r = Away_team \<and> date r \<noteq> None \<and>
               (p = Keeps_groups \<or> rest r \<noteq> None))) \<and>
         (''home_rest'' \<in> set (df_columns p gs) \<longleftrightarrow>
            (\<exists>r \<in> set (tidy_rest gs). variable r = Home_team \<and> date r \<noteq> None \<and>
               (p = Keeps_groups \<or> rest r \<noteq> None))) \<and>
         (if ''home_rest'' \<notin> set (df_columns p gs)
          then delta (df_columns p gs) (df p gs) = Inl (KeyError ''home_rest'')
          else if ''away_rest'' \<notin> set (df_columns p gs)
          then delta (df_columns p gs) (df p gs) = Inl (KeyError ''away_rest'')
          else \<exists>ds. delta (df_columns p gs) (df p gs) = Inr ds \<and>
                 (game_id (gs ! k), date (gs ! k)) \<notin> fst ` set ds \<and>
                 (\<forall>j < length gs.
                    (game_id (gs ! j), date (gs ! j)) \<in> fst ` set ds \<longleftrightarrow>
                    home_rest (df p gs ! j) \<noteq> None \<and> away_rest (df p gs ! j) \<noteq> None)) \<and>
         (\<forall>home_strength_of away_strength_of.
            if ''home_rest'' \<in> set (df_columns p gs) \<and> ''away_rest'' \<in> set (df_columns p gs)
            then \<exists>cs. complete_cases (df_home_win_columns p gs) home_strength_of away_strength_of
                         (df_home_win p gs) = Inr cs \<and>
                      game_id (gs ! k) \<notin> game_id ` set cs
            else complete_cases (df_home_win_columns p gs) home_strength_of away_strength_of
                   (df_home_win p gs) = Inl FormulaError)"
proof -
  have a: "away_team (gs ! k) = Some t \<Longrightarrow> away_rest_at gs k = None"
    using away_rest_at_first [OF assms(2) _ assms(4)] by simp
  have h: "home_team (gs ! k) = Some t \<Longrightarrow> away_team (gs ! k) \<noteq> Some t \<Longrightarrow> home_rest_at gs k = None"
    using home_rest_at_first [OF assms(2) _ _ assms(4)] by simp
  have row: "df p gs ! k = df_row_at gs k" by (rule df_nth [OF assms(1,2)])
  have miss: "away_rest (df p gs ! k) = None \<or> home_rest (df p gs ! k) = None"
  proof (cases "away_team (gs ! k) = Some t")
    case True
    then show ?thesis using a by (simp add: row df_row_at_fields)
  next
    case False
    then have "home_team (gs ! k) = Some t" using assms(3) by simp
    then show ?thesis using h False by (simp add: row df_row_at_fields)
  qed
  have 1: "away_team (gs ! k) = Some t \<longrightarrow>
            map rest (filter (\<lambda>r. game_id r = game_id (gs ! k) \<and> variable r = Away_team) (tidy_rest gs)) =
              [None]"
    using a by (simp add: away_rest_row [OF assms(1,2)] long_row.defs away_rest_at_def)
  have 2: "home_team (gs ! k) = Some t \<and> away_team (gs ! k) \<noteq> Some t \<longrightarrow>
            map rest (filter (\<lambda>r. game_id r = game_id (gs ! k) \<and> variable r = Home_team) (tidy_rest gs)) =
              [None]"
    using h by (simp add: home_rest_row [OF assms(1,2)] long_row.defs home_rest_at_def)
  have 3: "game_id (df p gs ! k) = game_id (gs ! k)" by (simp add: row df_row_at_fields)
  have rests: "away_rest_at gs k = None \<or> home_rest_at gs k = None"
  proof (cases "away_team (gs ! k) = Some t")
    case True
    then show ?thesis using a by simp
  next
    case False
    then have "home_team (gs ! k) = Some t" using assms(3) by simp
    then show ?thesis using h False by simp
  qed
  have 6: "\<forall>b \<in> set (by_game p gs).
            game_id b = game_id (gs ! k) \<longrightarrow>
            by_game_row.away_rest b = None \<or> by_game_row.home_rest b = None"
  proof (intro ballI impI)
    fix b assume "b \<in> set (by_game p gs)" and id: "game_id b = game_id (gs ! k)"
    then have "\<exists>m < length gs. date (gs ! m) \<noteq> None \<and> has_row p gs m \<and> b = pivot_row gs m"
      by (simp only: in_by_game [OF assms(1)])
    then obtain m where m: "m < length gs" "b = pivot_row gs m" by auto
    then have "game_id (gs ! m) = game_id (gs ! k)" using id by (simp add: pivot_row_fields)
    then have "m = k" using game_id_inj [OF assms(1) m(1) assms(2)] by simp
    then show "by_game_row.away_rest b = None \<or> by_game_row.home_rest b = None"
      using rests m(2) by (auto simp: pivot_row_fields)
  qed
  have ca: "(''away_rest'' \<in> set (df_columns p gs) \<longleftrightarrow>
            (\<exists>r \<in> set (tidy_rest gs). variable r = Away_team \<and> date r \<noteq> None \<and>
               (p = Keeps_groups \<or> rest r \<noteq> None)))"
    by (simp only: df_has_column by_game_has_column)
  have ch: "(''home_rest'' \<in> set (df_columns p gs) \<longleftrightarrow>
            (\<exists>r \<in> set (tidy_rest gs). variable r = Home_team \<and> date r \<noteq> None \<and>
               (p = Keeps_groups \<or> rest r \<noteq> None)))"
    by (simp only: df_has_column by_game_has_column)
  have keys: "(game_id (gs ! j), date (gs ! j)) \<in> fst ` set ds \<longleftrightarrow>
                home_rest (df p gs ! j) \<noteq> None \<and> away_rest (df p gs ! j) \<noteq> None"
    if ds: "delta (df_columns p gs) (df p gs) = Inr ds" and j: "j < length gs" for ds j
  proof
    assume "(game_id (gs ! j), date (gs ! j)) \<in> fst ` set ds"
    then obtain r where r: "r \<in> set (df p gs)" "game_id r = game_id (gs ! j)"
      "home_rest r \<noteq> None" "away_rest r \<noteq> None"
      unfolding delta_keys [OF ds] by auto
    then have "r = df p gs ! j" using df_row_of_game_id [OF assms(1) j] by simp
    then show "home_rest (df p gs ! j) \<noteq> None \<and> away_rest (df p gs ! j) \<noteq> None"
      using r by simp
  next
    assume b: "home_rest (df p gs ! j) \<noteq> None \<and> away_rest (df p gs ! j) \<noteq> None"
    have "df p gs ! j \<in> set (df p gs)" using j by (simp add: length_df [OF assms(1)])
    moreover have "(game_id (gs ! j), date (gs ! j)) = (game_id (df p gs ! j), date (df p gs ! j))"
      by (simp add: df_nth [OF assms(1) j] df_row_at_fields)
    ultimately show "(game_id (gs ! j), date (gs ! j)) \<in> fst ` set ds"
      unfolding delta_keys [OF ds] using b by (intro bexI [of _ "df p gs ! j"] conjI) simp_all
  qed
  have 4: "(if ''home_rest'' \<notin> set (df_columns p gs)
          then delta (df_columns p gs) (df p gs) = Inl (KeyError ''home_rest'')
          else if ''away_rest'' \<notin> set (df_columns p gs)
          then delta (df_columns p gs) (df p gs) = Inl (KeyError ''away_rest'')
          else \<exists>ds. delta (df_columns p gs) (df p gs) = Inr ds \<and>
                 (game_id (gs ! k), date (gs ! k)) \<notin> fst ` set ds \<and>
                 (\<forall>j < length gs.
                    (game_id (gs ! j), date (gs ! j)) \<in> fst ` set ds \<longleftrightarrow>
                    home_rest (df p gs ! j) \<noteq> None \<and> away_rest (df p gs ! j) \<noteq> None))"
  proof (cases "''home_rest'' \<in> set (df_columns p gs) \<and> ''away_rest'' \<in> set (df_columns p gs)")
    case True
    then obtain ds where ds: "delta (df_columns p gs) (df p gs) = Inr ds"
      using delta_returns by blast
    have "(game_id (gs ! k), date (gs ! k)) \<notin> fst ` set ds"
      using keys [OF ds assms(2)] miss by auto
    moreover have "\<forall>j < length gs.
                    (game_id (gs ! j), date (gs ! j)) \<in> fst ` set ds \<longleftrightarrow>
                    home_rest (df p gs ! j) \<noteq> None \<and> away_rest (df p gs ! j) \<noteq> None"
      using keys [OF ds] by simp
    ultimately have "\<exists>ds. delta (df_columns p gs) (df p gs) = Inr ds \<and>
                 (game_id (gs ! k), date (gs ! k)) \<notin> fst ` set ds \<and>
                 (\<forall>j < length gs.
                    (game_id (gs ! j), date (gs ! j)) \<in> fst ` set ds \<longleftrightarrow>
                    home_rest (df p gs ! j) \<noteq> None \<and> away_rest (df p gs ! j) \<noteq> None)"
      using ds by (intro exI [of _ ds] conjI)
    then show ?thesis using True by simp
  next
    case False
    then show ?thesis by (auto simp: delta_def)
  qed
  have 5: "if ''home_rest'' \<in> set (df_columns p gs) \<and> ''away_rest'' \<in> set (df_columns p gs)
            then \<exists>cs. complete_cases (df_home_win_columns p gs) hs as (df_home_win p gs) = Inr cs \<and>
                      game_id (gs ! k) \<notin> game_id ` set cs
            else complete_cases (df_home_win_columns p gs) hs as (df_home_win p gs) = Inl FormulaError"
    for hs as
  proof (cases "''home_rest'' \<in> set (df_columns p gs) \<and> ''away_rest'' \<in> set (df_columns p gs)")
    case True
    then obtain cs where cs: "complete_cases (df_home_win_columns p gs) hs as (df_home_win p gs) = Inr cs"
      by (simp add: complete_cases_def df_home_win_has_column)
    have "game_id (gs ! k) \<notin> game_id ` set cs"
    proof
      assume "game_id (gs ! k) \<in> game_id ` set cs"
      then obtain r where "r \<in> set cs" "game_id r = game_id (gs ! k)" by auto
      then obtain q where q: "q \<in> set (df p gs)" "game_id q = game_id (gs ! k)"
        "away_rest q \<noteq> None" "home_rest q \<noteq> None"
        using complete_cases_rows [OF cs, of r] by auto
      then have "q = df p gs ! k" using df_row_of_game_id [OF assms(1,2)] by simp
      then show False using q miss by auto
    qed
    then have "\<exists>cs. complete_cases (df_home_win_columns p gs) hs as (df_home_win p gs) = Inr cs \<and>
                      game_id (gs ! k) \<notin> game_id ` set cs"
      using cs by (intro exI [of _ cs] conjI)
    then show ?thesis using True by simp
  next
    case False
    then show ?thesis by (auto simp: complete_cases_def df_home_win_has_column)
  qed
  show ?thesis using 1 2 6 3 miss ca ch 4 5 by blast
qed

theorem first_game_rest_missing_witness:
  "index_ok season \<and> home_team (season ! 1) = Some ''CHI'' \<and>
   map rest (filter (\<lambda>r. game_id r = 1 \<and> variable r = Home_team) (tidy_rest season)) = [None] \<and>
   game_id (df Drops_groups season ! 1) = 1 \<and>
   (away_rest (df Drops_groups season ! 1) = None \<or> home_rest (df Drops_groups season ! 1) = None) \<and>
   (\<exists>ds. delta (df_columns Drops_groups season) (df Drops_groups season) = Inr ds \<and>
      (1, Some 16735) \<notin> fst ` set ds \<and> (3, Some 16738) \<in> fst ` set ds) \<and>
   (\<exists>cs. complete_cases (df_home_win_columns Drops_groups season) (\<lambda>r. Some 1) (\<lambda>r. Some 1)
            (df_home_win Drops_groups season) = Inr cs \<and>
      1 \<notin> game_id ` set cs) \<and>
   index_ok opening_night \<and> away_team (opening_night ! 0) = Some ''DET'' \<and>
   delta (df_columns Drops_groups opening_night) (df Drops_groups opening_night) =
     Inl (KeyError ''home_rest'') \<and>
   complete_cases (df_home_win_columns Drops_groups opening_night) (\<lambda>r. Some 1) (\<lambda>r. Some 1)
     (df_home_win Drops_groups opening_night) = Inl FormulaError"
proof -
  have first: "\<forall>j<1. \<not> plays ''CHI'' (season ! j)" by (simp add: season_nth)
  have k: "1 < length season" by (simp add: season_length)
  have p: "plays ''CHI'' (season ! 1)" by (simp add: season_nth_Suc)
  note s = first_game_rest_missing [OF season_ok k p first, of Drops_groups]
  have cols: "''home_rest'' \<in> set (df_columns Drops_groups season)"
    "''away_rest'' \<in> set (df_columns Drops_groups season)"
    by (simp_all add: season_columns)
  have 1: "home_team (season ! 1) = Some ''CHI'' \<and>
      map rest (filter (\<lambda>r. game_id r = 1 \<and> variable r = Home_team) (tidy_rest season)) = [None] \<and>
      game_id (df Drops_groups season ! 1) = 1 \<and>
      (away_rest (df Drops_groups season ! 1) = None \<or> home_rest (df Drops_groups season ! 1) = None)"
    using s by (simp add: season_nth_Suc)
  have "\<exists>ds. delta (df_columns Drops_groups season) (df Drops_groups season) = Inr ds \<and>
          (game_id (season ! 1), date (season ! 1)) \<notin> fst ` set ds \<and>
          (\<forall>j < length season.
             (game_id (season ! j), date (season ! j)) \<in> fst ` set ds \<longleftrightarrow>
             home_rest (df Drops_groups season ! j) \<noteq> None \<and> away_rest (df Drops_groups season ! j) \<noteq> None)"
    using s cols by simp
  then obtain ds where ds: "delta (df_columns Drops_groups season) (df Drops_groups season) = Inr ds"
    and out: "(game_id (season ! 1), date (season ! 1)) \<notin> fst ` set ds"
    and keys: "\<forall>j < length season.
             (game_id (season ! j), date (season ! j)) \<in> fst ` set ds \<longleftrightarrow>
             home_rest (df Drops_groups season ! j) \<noteq> None \<and> away_rest (df Drops_groups season ! j) \<noteq> None"
    by auto
  have k3: "3 < length season" by (simp add: season_length)
  have "home_rest (df Drops_groups season ! 3) \<noteq> None \<and> away_rest (df Drops_groups season ! 3) \<noteq> None"
    using season_rests by (simp add: df_nth [OF season_ok k3] df_row_at_fields season_nth)
  then have "(game_id (season ! 3), date (season ! 3)) \<in> fst ` set ds"
    using keys [rule_format, OF k3] by simp
  then have 2: "\<exists>ds. delta (df_columns Drops_groups season) (df Drops_groups season) = Inr ds \<and>
      (1, Some 16735) \<notin> fst ` set ds \<and> (3, Some 16738) \<in> fst ` set ds"
    using ds out by (simp add: season_nth season_nth_Suc)
  have 3: "\<exists>cs. complete_cases (df_home_win_columns Drops_groups season) (\<lambda>r. Some 1) (\<lambda>r. Some 1)
            (df_home_win Drops_groups season) = Inr cs \<and>
      1 \<notin> game_id ` set cs"
    using s [THEN conjunct2, THEN conjunct2, THEN conjunct2, THEN conjunct2, THEN conjunct2,
        THEN conjunct2, THEN conjunct2, THEN conjunct2, rule_format, of "\<lambda>r. Some 1" "\<lambda>r. Some 1"] cols
    by (simp add: season_nth_Suc)
  have ok: "index_ok opening_night" by (simp add: opening_night index_ok_def)
  have k0: "0 < length opening_night" by (simp add: opening_night)
  have p0: "plays ''DET'' (opening_night ! 0)" by (simp add: opening_night)
  have first0: "\<forall>j<0. \<not> plays ''DET'' (opening_night ! j)" by simp
  note n = first_game_rest_missing [OF ok k0 p0 first0, of Drops_groups]
  have nocol: "''home_rest'' \<notin> set (df_columns Drops_groups opening_night)"
    by (simp add: opening_night_columns)
  have 4: "delta (df_columns Drops_groups opening_night) (df Drops_groups opening_night) =
     Inl (KeyError ''home_rest'')"
    using n nocol by simp
  have 5: "complete_cases (df_home_win_columns Drops_groups opening_night) (\<lambda>r. Some 1) (\<lambda>r. Some 1)
     (df_home_win Drops_groups opening_night) = Inl FormulaError"
    using n [THEN conjunct2, THEN conjunct2, THEN conjunct2, THEN conjunct2, THEN conjunct2,
        THEN conjunct2, THEN conjunct2, THEN conjunct2, rule_format, of "\<lambda>r. Some 1" "\<lambda>r. Some 1"] nocol
    by simp
  have 6: "away_team (opening_night ! 0) = Some ''DET''" by (simp add: opening_night)
  show ?thesis using season_ok 1 2 3 ok 6 4 5 by simp
qed

section \<open>The outcome\<close>

text \<open>
  \<^bold>\<open>Claim C5.\<close> For every game, \<^verbatim>\<open>home_win\<close> is true exactly when the home team's points
  are strictly greater than the away team's points (and so false when a score is missing).
\<close>

theorem home_win_iff_more_points:
  assumes "index_ok gs" and "k < length gs"
  shows "length (df_home_win p gs) = length gs \<and>
         game_id (df_home_win p gs ! k) = game_id (gs ! k) \<and>
         (home_win (df_home_win p gs ! k) \<longleftrightarrow>
            (\<exists>h a. home_points (gs ! k) = Some h \<and> away_points (gs ! k) = Some a \<and> a < h))"
proof -
  have "length (df_home_win p gs) = length gs"
    by (simp add: df_home_win_def assign_home_win_def length_df [OF assms(1)])
  moreover have "game_id (df_home_win p gs ! k) = game_id (gs ! k)"
    by (simp add: df_home_win_nth [OF assms] df_nth [OF assms] df_row_at_fields df_row.defs)
  moreover have "home_win (df_home_win p gs ! k) \<longleftrightarrow>
            (\<exists>h a. home_points (gs ! k) = Some h \<and> away_points (gs ! k) = Some a \<and> a < h)"
    by (auto simp: df_home_win_nth [OF assms] df_row.defs points_gt_def split: option.splits)
  ultimately show ?thesis by blast
qed

theorem home_win_iff_more_points_witness:
  "index_ok season \<and> length (df_home_win Drops_groups season) = 4 \<and> game_id (df_home_win Drops_groups season ! 2) = 2 \<and>
   home_win (df_home_win Drops_groups season ! 2) \<and> \<not> home_win (df_home_win Drops_groups season ! 0)"
proof -
  have k: "2 < length season" "0 < length season" by (simp_all add: season_length)
  show ?thesis
    using home_win_iff_more_points [OF season_ok k(1)] home_win_iff_more_points [OF season_ok k(2)]
    by (simp add: season_ok season_length season_nth)
qed

section \<open>Wins by team\<close>

text \<open>The second long table holds a home row and an away row for each game.\<close>

lemma df_home_win_rows:
  assumes "index_ok gs"
  shows "df_home_win p gs =
         map (\<lambda>k. df_row.extend (df_row_at gs k) \<lparr>home_win = home_won (gs ! k)\<rparr>) [0..<length gs]"
  by (simp add: df_home_win_def assign_home_win_def df_rows [OF assms] home_won_def
      df_row_at_def join_rest_def game.defs)

lemma games_long_rows:
  assumes "index_ok gs"
  shows "games_long p gs = map (outcome_of Home_team) gs @ map (outcome_of Away_team) gs"
proof -
  have h: "map (\<lambda>k. outcome_of Home_team (gs ! k)) [0..<length gs] = map (outcome_of Home_team) gs"
    by (rule map_upt_nth)
  have a: "map (\<lambda>k. outcome_of Away_team (gs ! k)) [0..<length gs] = map (outcome_of Away_team) gs"
    by (rule map_upt_nth)
  have "games_long p gs = map (\<lambda>k. outcome_of Home_team (gs ! k)) [0..<length gs] @
                        map (\<lambda>k. outcome_of Away_team (gs ! k)) [0..<length gs]"
    by (simp add: games_long_def assign_win_def melt_outcome_def df_home_win_rows [OF assms]
        outcome_of_def role_team_def outcome_row.defs df_row.defs df_row_at_def join_rest_def game.defs)
  then show ?thesis by (simp only: h a)
qed

lemma filter_game_id_outcome:
  assumes "index_ok gs" "k < length gs"
  shows "filter (\<lambda>r. game_id r = game_id (gs ! k)) (map (outcome_of v) gs) = [outcome_of v (gs ! k)]"
proof -
  have "filter (\<lambda>g. game_id g = game_id (gs ! k)) gs = [gs ! k]"
    using index_ok_distinct [OF assms(1)] assms(2) by (intro filter_single) simp_all
  then show ?thesis by (simp add: filter_map comp_def outcome_of_def)
qed

text \<open>
  \<^bold>\<open>Claim C6.\<close> In the long table that carries the outcome, a row's \<^verbatim>\<open>win\<close> flag is true
  if and only if \<^verbatim>\<open>home_win\<close> is true and the row is tagged \<^verbatim>\<open>home_team\<close>, or \<^verbatim>\<open>home_win\<close>
  is false and the row is tagged \<^verbatim>\<open>away_team\<close>. Each game has two rows there, a home row
  flagged when the home team scored more and an away row flagged otherwise; when both
  scores are known and differ, the flagged row is the row of the team that scored more.
\<close>

theorem win_marks_winner:
  assumes "index_ok gs" and "k < length gs"
  shows "(\<forall>r \<in> set (games_long p gs).
            win r \<longleftrightarrow> (outcome_row.home_win r \<and> home_or_away r = Home_team) \<or>
                     (\<not> outcome_row.home_win r \<and> home_or_away r = Away_team)) \<and>
         filter (\<lambda>r. game_id r = game_id (gs ! k)) (games_long p gs) =
           [\<lparr>game_id = game_id (gs ! k), date = date (gs ! k),
             outcome_row.home_win = points_gt (home_points (gs ! k)) (away_points (gs ! k)),
             home_or_away = Home_team, outcome_row.team = home_team (gs ! k),
             win = points_gt (home_points (gs ! k)) (away_points (gs ! k))\<rparr>,
            \<lparr>game_id = game_id (gs ! k), date = date (gs ! k),
             outcome_row.home_win = points_gt (home_points (gs ! k)) (away_points (gs ! k)),
             home_or_away = Away_team, outcome_row.team = away_team (gs ! k),
             win = (\<not> points_gt (home_points (gs ! k)) (away_points (gs ! k)))\<rparr>] \<and>
         (\<forall>h a. home_points (gs ! k) = Some h \<and> away_points (gs ! k) = Some a \<and> h \<noteq> a \<longrightarrow>
            map (\<lambda>r. (home_or_away r, win r))
              (filter (\<lambda>r. game_id r = game_id (gs ! k)) (games_long p gs)) =
              [(Home_team, a < h), (Away_team, h < a)])"
proof -
  have 1: "\<forall>r \<in> set (games_long p gs).
            win r \<longleftrightarrow> (outcome_row.home_win r \<and> home_or_away r = Home_team) \<or>
                     (\<not> outcome_row.home_win r \<and> home_or_away r = Away_team)"
    by (auto simp: games_long_def assign_win_def outcome_row.defs)
  have f: "filter (\<lambda>r. game_id r = game_id (gs ! k)) (games_long p gs) =
           [outcome_of Home_team (gs ! k), outcome_of Away_team (gs ! k)]"
    by (simp add: games_long_rows [OF assms(1)] filter_game_id_outcome [OF assms])
  have 2: "filter (\<lambda>r. game_id r = game_id (gs ! k)) (games_long p gs) =
           [\<lparr>game_id = game_id (gs ! k), date = date (gs ! k),
             outcome_row.home_win = points_gt (home_points (gs ! k)) (away_points (gs ! k)),
             home_or_away = Home_team, outcome_row.team = home_team (gs ! k),
             win = points_gt (home_points (gs ! k)) (away_points (gs ! k))\<rparr>,
            \<lparr>game_id = game_id (gs ! k), date = date (gs ! k),
             outcome_row.home_win = points_gt (home_points (gs ! k)) (away_points (gs ! k)),
             home_or_away = Away_team, outcome_row.team = away_team (gs ! k),
             win = (\<not> points_gt (home_points (gs ! k)) (away_points (gs ! k)))\<rparr>]"
    by (simp add: f outcome_of_def role_team_def home_won_def)
  have 3: "\<forall>h a. home_points (gs ! k) = Some h \<and> away_points (gs ! k) = Some a \<and> h \<noteq> a \<longrightarrow>
            map (\<lambda>r. (home_or_away r, win r))
              (filter (\<lambda>r. game_id r = game_id (gs ! k)) (games_long p gs)) =
              [(Home_team, a < h), (Away_team, h < a)]"
    by (auto simp: f outcome_of_def home_won_def points_gt_def)
  show ?thesis using 1 2 3 by blast
qed

theorem win_marks_winner_witness:
  "index_ok season \<and>
   map (\<lambda>r. (home_or_away r, win r)) (filter (\<lambda>r. game_id r = 3) (games_long Drops_groups season)) =
     [(Home_team, True), (Away_team, False)]"
proof -
  have k: "3 < length season" by (simp add: season_length)
  show ?thesis
    using win_marks_winner [OF season_ok k] by (simp add: season_ok season_nth points_gt_def)
qed

text \<open>The group of a team and a role, read off the games table.\<close>

lemma agg_sum_filter: "agg_sum bs = length (filter (\<lambda>b. b) bs)"
  by (induction bs) (simp_all add: agg_sum_def)

lemma agg_mean_filter: "agg_mean bs = of_nat (length (filter (\<lambda>b. b) bs)) / of_nat (length bs)"
proof -
  have "sum_list (map of_bool bs) = (of_nat (length (filter (\<lambda>b. b) bs)) :: rat)"
    by (induction bs) simp_all
  then show ?thesis by (simp add: agg_mean_def)
qed

lemma length_filter_map_id:
  "length (filter (\<lambda>b. b) (map f xs)) = length (filter f xs)"
  by (induction xs) simp_all

lemma group_of_role:
  assumes "index_ok gs"
  shows "map win (filter (\<lambda>r. outcome_row.team r = Some t \<and> home_or_away r = v) (games_long p gs)) =
         map (\<lambda>g. home_won g \<longleftrightarrow> v = Home_team) (filter (\<lambda>g. role_team v g = Some t) gs)"
proof -
  have "map win (filter (\<lambda>r. outcome_row.team r = Some t \<and> home_or_away r = v) (map (outcome_of u) gs)) =
        (if u = v then map (\<lambda>g. home_won g \<longleftrightarrow> v = Home_team) (filter (\<lambda>g. role_team v g = Some t) gs)
         else [])" for u
    by (induction gs) (auto simp: outcome_of_def)
  then show ?thesis
    by (cases v) (simp_all add: games_long_rows [OF assms])
qed

lemma wins_table_eq:
  assumes "index_ok gs"
  shows "wins_table p gs (t, v) =
         (if filter (\<lambda>g. role_team v g = Some t) gs = [] then None
          else Some \<lparr>n_wins = length (filter (\<lambda>g. home_won g \<longleftrightarrow> v = Home_team)
                                 (filter (\<lambda>g. role_team v g = Some t) gs)),
                     n_games = length (filter (\<lambda>g. role_team v g = Some t) gs),
                     win_pct = of_nat (length (filter (\<lambda>g. home_won g \<longleftrightarrow> v = Home_team)
                                 (filter (\<lambda>g. role_team v g = Some t) gs))) /
                               of_nat (length (filter (\<lambda>g. role_team v g = Some t) gs))\<rparr>)"
  by (simp add: wins_table_def wins_def group_of_role [OF assms] Let_def agg_sum_filter
      agg_mean_filter agg_count_def length_filter_map_id)

text \<open>
  \<^bold>\<open>Claim C7.\<close> Grouping the win rows by (team, home/away) gives, for a team and a role,
  no row if the team played no game in that role, and otherwise \<^verbatim>\<open>n_games\<close> the number of
  games it played in that role, \<^verbatim>\<open>n_wins\<close> the number of those it won, and \<^verbatim>\<open>win_pct\<close>
  their quotient. In every row \<^verbatim>\<open>n_wins\<close> is at most \<^verbatim>\<open>n_games\<close>, and \<^verbatim>\<open>win_pct\<close> lies
  between 0 and 1.
\<close>

theorem wins_by_team_and_role:
  assumes "index_ok gs"
  shows "wins_table p gs (t, v) =
           (let played = filter (\<lambda>g. (case v of Away_team \<Rightarrow> away_team g | Home_team \<Rightarrow> home_team g) = Some t) gs;
                won = filter (\<lambda>g. points_gt (home_points g) (away_points g) \<longleftrightarrow> v = Home_team) played
            in if played = [] then None
               else Some \<lparr>n_wins = length won, n_games = length played,
                          win_pct = of_nat (length won) / of_nat (length played)\<rparr>) \<and>
         (\<forall>w. wins_table p gs (t, v) = Some w \<longrightarrow>
            n_wins w \<le> n_games w \<and> 0 < n_games w \<and>
            win_pct w = of_nat (n_wins w) / of_nat (n_games w) \<and>
            0 \<le> win_pct w \<and> win_pct w \<le> 1)"
proof -
  let ?played = "filter (\<lambda>g. role_team v g = Some t) gs"
  let ?won = "filter (\<lambda>g. home_won g \<longleftrightarrow> v = Home_team) ?played"
  have le: "length ?won \<le> length ?played" by (rule length_filter_le)
  have 1: "wins_table p gs (t, v) =
           (let played = filter (\<lambda>g. (case v of Away_team \<Rightarrow> away_team g | Home_team \<Rightarrow> home_team g) = Some t) gs;
                won = filter (\<lambda>g. points_gt (home_points g) (away_points g) \<longleftrightarrow> v = Home_team) played
            in if played = [] then None
               else Some \<lparr>n_wins = length won, n_games = length played,
                          win_pct = of_nat (length won) / of_nat (length played)\<rparr>)"
    using wins_table_eq [OF assms, of p t v] by (simp add: role_team_def home_won_def Let_def)
  have 2: "n_wins w \<le> n_games w \<and> 0 < n_games w \<and>
            win_pct w = of_nat (n_wins w) / of_nat (n_games w) \<and>
            0 \<le> win_pct w \<and> win_pct w \<le> 1" if "wins_table p gs (t, v) = Some w" for w
  proof -
    have ne: "?played \<noteq> []" and w: "w = \<lparr>n_wins = length ?won, n_games = length ?played,
        win_pct = of_nat (length ?won) / of_nat (length ?played)\<rparr>"
      using that wins_table_eq [OF assms, of p t v] by (auto split: if_splits)
    have pos: "0 < length ?played" using ne by simp
    have "(of_nat (length ?won) :: rat) \<le> of_nat (length ?played)" using le by simp
    then have "(of_nat (length ?won) :: rat) / of_nat (length ?played) \<le> 1"
      using pos by (simp add: divide_le_eq_1)
    then show ?thesis using le pos by (simp add: w)
  qed
  show ?thesis using 1 2 by blast
qed

theorem wins_by_team_and_role_witness:
  "index_ok season \<and>
   wins_table Drops_groups season (''DET'', Away_team) = Some \<lparr>n_wins = 1, n_games = 2, win_pct = 1 / 2\<rparr>"
  using wins_by_team_and_role [OF season_ok, of Drops_groups "''DET''" Away_team]
  by (simp add: season_ok) (simp add: season_def points_gt_def)

lemma win_percent_eq:
  assumes "index_ok gs"
  shows "win_percent (wins_table p gs) t =
         (if games_played t gs = 0 then None
          else Some (of_nat (games_won t gs) / of_nat (games_played t gs)))"
proof -
  let ?pa = "filter (\<lambda>g. away_team g = Some t) gs"
  let ?ph = "filter (\<lambda>g. home_team g = Some t) gs"
  let ?wa = "filter (\<lambda>g. \<not> home_won g) ?pa"
  let ?wh = "filter (\<lambda>g. home_won g) ?ph"
  have a: "wins_table p gs (t, Away_team) =
      (if ?pa = [] then None
       else Some \<lparr>n_wins = length ?wa, n_games = length ?pa,
                  win_pct = of_nat (length ?wa) / of_nat (length ?pa)\<rparr>)"
    using wins_table_eq [OF assms, of p t Away_team] by (simp add: role_team_def)
  have h: "wins_table p gs (t, Home_team) =
      (if ?ph = [] then None
       else Some \<lparr>n_wins = length ?wh, n_games = length ?ph,
                  win_pct = of_nat (length ?wh) / of_nat (length ?ph)\<rparr>)"
    using wins_table_eq [OF assms, of p t Home_team] by (simp add: role_team_def)
  have wa: "?pa = [] \<Longrightarrow> ?wa = []" and wh: "?ph = [] \<Longrightarrow> ?wh = []" by simp_all
  have gw: "games_won t gs = length ?wa + length ?wh"
    by (simp add: games_won_def filter_filter conj_commute)
  have gp: "games_played t gs = length ?pa + length ?ph"
    by (simp add: games_played_def)
  have rows: "List.map_filter (\<lambda>v. wins_table p gs (t, v)) [Away_team, Home_team] =
      (if ?pa = [] then []
       else [\<lparr>n_wins = length ?wa, n_games = length ?pa,
                win_pct = of_nat (length ?wa) / of_nat (length ?pa)\<rparr>]) @
      (if ?ph = [] then []
       else [\<lparr>n_wins = length ?wh, n_games = length ?ph,
                win_pct = of_nat (length ?wh) / of_nat (length ?ph)\<rparr>])"
    by (simp add: List.map_filter_simps a h)
  show ?thesis
    unfolding gw gp win_percent_def rows
    by (cases "?pa = []"; cases "?ph = []") (simp_all add: Let_def)
qed

lemma games_played_pos:
  assumes "g \<in> set gs" "away_team g = Some t \<or> home_team g = Some t"
  shows "0 < games_played t gs"
proof -
  have "filter (\<lambda>g. away_team g = Some t) gs \<noteq> [] \<or> filter (\<lambda>g. home_team g = Some t) gs \<noteq> []"
    using assms by (auto simp: filter_empty_conv)
  then show ?thesis by (auto simp: games_played_def)
qed

text \<open>
  \<^bold>\<open>Claim C4.\<close> For every game, \<^verbatim>\<open>home_strength\<close> is the overall win percentage of the
  home team and \<^verbatim>\<open>away_strength\<close> that of the away team: the team's wins over the games it
  played, home and away together.
\<close>

theorem strength_is_overall_win_percent:
  assumes "index_ok gs" and "k < length gs"
  shows "game_id (df_strength p gs ! k) = game_id (gs ! k) \<and>
         home_strength (df_strength p gs ! k) =
           (case home_team (gs ! k) of
              None \<Rightarrow> None
            | Some t \<Rightarrow> Some (of_nat (games_won t gs) / of_nat (games_played t gs))) \<and>
         away_strength (df_strength p gs ! k) =
           (case away_team (gs ! k) of
              None \<Rightarrow> None
            | Some t \<Rightarrow> Some (of_nat (games_won t gs) / of_nat (games_played t gs)))"
proof -
  have g: "gs ! k \<in> set gs" using assms(2) by simp
  have row: "df_strength p gs ! k =
      df_win_row.extend (df_home_win p gs ! k)
        \<lparr>away_strength = series_map (away_team (df_home_win p gs ! k)) (win_percent (wins_table p gs)),
         home_strength = series_map (home_team (df_home_win p gs ! k)) (win_percent (wins_table p gs)),
         point_diff = (case (home_points (df_home_win p gs ! k), away_points (df_home_win p gs ! k)) of
                         (Some h, Some a) \<Rightarrow> Some (h - a) | _ \<Rightarrow> None),
         rest_diff = (case (home_rest (df_home_win p gs ! k), away_rest (df_home_win p gs ! k)) of
                        (Some h, Some a) \<Rightarrow> Some (h - a) | _ \<Rightarrow> None)\<rparr>"
    using assms(2) by (simp add: df_strength_def assign_strength_def df_home_win_rows [OF assms(1)])
  have f: "game_id (df_home_win p gs ! k) = game_id (gs ! k)"
    "home_team (df_home_win p gs ! k) = home_team (gs ! k)"
    "away_team (df_home_win p gs ! k) = away_team (gs ! k)"
    using assms(2)
    by (simp_all add: df_home_win_rows [OF assms(1)] df_row.defs df_row_at_def join_rest_def game.defs)
  have h: "home_team (gs ! k) = Some t \<Longrightarrow>
      win_percent (wins_table p gs) t = Some (of_nat (games_won t gs) / of_nat (games_played t gs))" for t
    using games_played_pos [OF g, of t] by (simp add: win_percent_eq [OF assms(1)])
  have a: "away_team (gs ! k) = Some t \<Longrightarrow>
      win_percent (wins_table p gs) t = Some (of_nat (games_won t gs) / of_nat (games_played t gs))" for t
    using games_played_pos [OF g, of t] by (simp add: win_percent_eq [OF assms(1)])
  show ?thesis
    using h a by (simp add: row f df_win_row.defs series_map_def split: option.splits)
qed

theorem strength_is_overall_win_percent_witness:
  "index_ok season \<and> game_id (df_strength Drops_groups season ! 2) = 2 \<and>
   home_strength (df_strength Drops_groups season ! 2) = Some (2 / 3) \<and>
   away_strength (df_strength Drops_groups season ! 2) = Some (1 / 2)"
proof -
  have k: "2 < length season" by (simp add: season_length)
  have "games_won ''DET'' season = 2" "games_played ''DET'' season = 3"
    "games_won ''CHI'' season = 1" "games_played ''CHI'' season = 2"
    by (simp_all add: games_won_def games_played_def home_won_def points_gt_def season_def)
  then show ?thesis
    using strength_is_overall_win_percent [OF season_ok k] by (simp add: season_ok season_nth)
qed

end
